theory Spec2Isabelle
  imports Complex_Main
begin

section \<open>Numbers\<close>

text \<open>
  The data layer \<^verbatim>\<open>lib/data.js\<close> computes with JavaScript numbers, which are IEEE 754
  binary64 values. A finite double is modelled by the rational it denotes (\<open>number\<close>);
  a value that a computation may produce is a \<open>jsnum\<close>: finite, \<^verbatim>\<open>NaN\<close> or one of the
  infinities. Every number read from a persisted JSON collection is finite. The sign of
  zero is not modelled: the code never divides, \<^verbatim>\<open>-0\<close> and \<^verbatim>\<open>0\<close> compare equal and
  JSON writes both as \<^verbatim>\<open>0\<close>.
\<close>

type_synonym number = rat

datatype jsnum = Fin number | NaN | PosInfinity | NegInfinity

fun isFinite :: "jsnum \<Rightarrow> bool" where
  "isFinite (Fin _) = True"
| "isFinite _ = False"

subsection \<open>Rounding to binary64\<close>

text \<open>
  \<open>binexp a\<close> is the binary exponent of a positive rational: the integer \<open>e\<close> with
  \<open>2\<^sup>e \<le> a < 2\<^sup>e\<^sup>+\<^sup>1\<close>. A double has 53 significant bits and its exponent is at
  least \<open>-1022\<close>, so the doubles around \<open>a\<close> are the multiples of \<open>2\<close> to the power
  \<open>ulpExponent a\<close>. \<open>roundMagnitude\<close> takes \<open>a\<close> to the nearest such multiple, a tie
  to the one with the even multiplier, and \<open>roundDouble\<close> is the rounding of an exact
  result to the double that an arithmetic operation returns: a magnitude that rounds to
  \<open>2\<^sup>1\<^sup>0\<^sup>2\<^sup>4\<close> or beyond gives an infinity.
\<close>

function binexp :: "rat \<Rightarrow> int" where
  "binexp a = (if a \<le> 0 then 0 else if 2 \<le> a then binexp (a / 2) + 1
               else if a < 1 then binexp (a * 2) - 1 else 0)"
  by pat_completeness auto
termination
proof (relation "measure (\<lambda>a. 2 * nat \<lceil>1 / a\<rceil> + nat \<lfloor>a\<rfloor>)")
  show "wf (measure (\<lambda>a. 2 * nat \<lceil>1 / a\<rceil> + nat \<lfloor>a\<rfloor>))" by simp
next
  fix a :: rat assume "\<not> a \<le> 0" "2 \<le> a"
  then have a: "2 \<le> a" by simp
  have c1: "\<lceil>1 / a\<rceil> = 1" using a by (intro ceiling_unique) (auto simp: field_simps)
  have c2: "\<lceil>1 / (a / 2)\<rceil> = 1" using a by (intro ceiling_unique) (auto simp: field_simps)
  have "\<lfloor>a / 2\<rfloor> < \<lfloor>a\<rfloor>"
  proof -
    have "a / 2 \<le> a - 1" using a by simp
    then have "\<lfloor>a / 2\<rfloor> \<le> \<lfloor>a - 1\<rfloor>" by (rule floor_mono)
    then show ?thesis by simp
  qed
  moreover have "0 < \<lfloor>a\<rfloor>" using a by linarith
  ultimately show "(a / 2, a) \<in> measure (\<lambda>a. 2 * nat \<lceil>1 / a\<rceil> + nat \<lfloor>a\<rfloor>)"
    using c1 c2 by simp
next
  fix a :: rat assume "\<not> a \<le> 0" "\<not> 2 \<le> a" "a < 1"
  then have a: "0 < a" "a < 1" by simp_all
  define y where "y = 1 / a"
  have y: "1 < y" using a by (simp add: y_def)
  have fa: "\<lfloor>a\<rfloor> = 0" using a by (intro floor_unique) auto
  have f2: "\<lfloor>a * 2\<rfloor> \<le> 1" using a by (simp add: floor_le_iff)
  have "1 / (a * 2) = y / 2" by (simp add: y_def)
  moreover have "\<lceil>y / 2\<rceil> < \<lceil>y\<rceil>"
  proof -
    have "2 \<le> \<lceil>y\<rceil>" using y by linarith
    have "y / 2 \<le> of_int \<lceil>y\<rceil> / 2" by simp
    also have "\<dots> \<le> of_int (\<lceil>y\<rceil> - 1)" using \<open>2 \<le> \<lceil>y\<rceil>\<close> by simp
    finally have "y / 2 \<le> of_int (\<lceil>y\<rceil> - 1)" .
    then have "\<lceil>y / 2\<rceil> \<le> \<lceil>y\<rceil> - 1" by (rule ceiling_le)
    then show ?thesis by simp
  qed
  moreover have "0 < \<lceil>y / 2\<rceil>" using y by simp
  ultimately have "nat \<lceil>1 / (a * 2)\<rceil> < nat \<lceil>1 / a\<rceil>"
    unfolding y_def by simp
  moreover have "nat \<lfloor>a * 2\<rfloor> \<le> 1" using f2 by linarith
  moreover have "nat \<lfloor>a\<rfloor> = 0" using fa by linarith
  ultimately have "2 * nat \<lceil>1 / (a * 2)\<rceil> + nat \<lfloor>a * 2\<rfloor> < 2 * nat \<lceil>1 / a\<rceil> + nat \<lfloor>a\<rfloor>"
    by linarith
  then show "(a * 2, a) \<in> measure (\<lambda>a. 2 * nat \<lceil>1 / a\<rceil> + nat \<lfloor>a\<rfloor>)"
    by simp
qed

declare binexp.simps [simp del]

definition roundHalfEven :: "rat \<Rightarrow> int" where
  "roundHalfEven y =
     (let f = \<lfloor>y\<rfloor>; d = y - of_int f
      in if d < 1 / 2 then f else if 1 / 2 < d then f + 1 else if even f then f else f + 1)"

definition ulpExponent :: "rat \<Rightarrow> int" where
  "ulpExponent a = max (binexp a) (- 1022) - 52"

definition roundMagnitude :: "rat \<Rightarrow> rat" where
  "roundMagnitude a = of_int (roundHalfEven (a / 2 powi ulpExponent a)) * 2 powi ulpExponent a"

definition overflowThreshold :: rat where
  "overflowThreshold = 2 powi 1024"

definition roundDouble :: "rat \<Rightarrow> jsnum" where
  "roundDouble x =
     (if x = 0 then Fin 0
      else if 0 < x then
        (if overflowThreshold \<le> roundMagnitude x then PosInfinity else Fin (roundMagnitude x))
      else
        (if overflowThreshold \<le> roundMagnitude (- x) then NegInfinity
         else Fin (- roundMagnitude (- x))))"

text \<open>A rational is a double when rounding leaves it as it is.\<close>

definition isDouble :: "rat \<Rightarrow> bool" where
  "isDouble x \<longleftrightarrow> roundDouble x = Fin x"

subsection \<open>Arithmetic and comparison\<close>

text \<open>
  The operators \<^verbatim>\<open>+\<close>, \<^verbatim>\<open>-\<close>, \<^verbatim>\<open>*\<close>, \<^verbatim>\<open><\<close>, \<^verbatim>\<open><=\<close> on numbers, \<^verbatim>\<open>Math.ceil\<close>,
  \<^verbatim>\<open>Math.max\<close> and the idiom \<^verbatim>\<open>x || 0\<close>. The sum and the product of finite values are
  the exact results rounded; a comparison with \<^verbatim>\<open>NaN\<close> is false.
\<close>

fun jsNeg :: "jsnum \<Rightarrow> jsnum" where
  "jsNeg (Fin a) = Fin (- a)"
| "jsNeg NaN = NaN"
| "jsNeg PosInfinity = NegInfinity"
| "jsNeg NegInfinity = PosInfinity"

fun jsAdd :: "jsnum \<Rightarrow> jsnum \<Rightarrow> jsnum" where
  "jsAdd (Fin a) (Fin b) = roundDouble (a + b)"
| "jsAdd NaN _ = NaN"
| "jsAdd _ NaN = NaN"
| "jsAdd PosInfinity NegInfinity = NaN"
| "jsAdd NegInfinity PosInfinity = NaN"
| "jsAdd PosInfinity _ = PosInfinity"
| "jsAdd _ PosInfinity = PosInfinity"
| "jsAdd NegInfinity _ = NegInfinity"
| "jsAdd _ NegInfinity = NegInfinity"

definition jsSub :: "jsnum \<Rightarrow> jsnum \<Rightarrow> jsnum" where
  "jsSub a b = jsAdd a (jsNeg b)"

fun jsMul :: "jsnum \<Rightarrow> jsnum \<Rightarrow> jsnum" where
  "jsMul (Fin a) (Fin b) = roundDouble (a * b)"
| "jsMul NaN _ = NaN"
| "jsMul _ NaN = NaN"
| "jsMul PosInfinity (Fin b) = (if b = 0 then NaN else if 0 < b then PosInfinity else NegInfinity)"
| "jsMul NegInfinity (Fin b) = (if b = 0 then NaN else if 0 < b then NegInfinity else PosInfinity)"
| "jsMul (Fin a) PosInfinity = (if a = 0 then NaN else if 0 < a then PosInfinity else NegInfinity)"
| "jsMul (Fin a) NegInfinity = (if a = 0 then NaN else if 0 < a then NegInfinity else PosInfinity)"
| "jsMul PosInfinity PosInfinity = PosInfinity"
| "jsMul NegInfinity NegInfinity = PosInfinity"
| "jsMul PosInfinity NegInfinity = NegInfinity"
| "jsMul NegInfinity PosInfinity = NegInfinity"

fun jsLt :: "jsnum \<Rightarrow> jsnum \<Rightarrow> bool" where
  "jsLt (Fin a) (Fin b) = (a < b)"
| "jsLt NaN _ = False"
| "jsLt _ NaN = False"
| "jsLt _ NegInfinity = False"
| "jsLt PosInfinity _ = False"
| "jsLt NegInfinity _ = True"
| "jsLt _ PosInfinity = True"

fun jsLe :: "jsnum \<Rightarrow> jsnum \<Rightarrow> bool" where
  "jsLe (Fin a) (Fin b) = (a \<le> b)"
| "jsLe NaN _ = False"
| "jsLe _ NaN = False"
| "jsLe NegInfinity _ = True"
| "jsLe _ PosInfinity = True"
| "jsLe _ NegInfinity = False"
| "jsLe PosInfinity _ = False"

fun jsCeil :: "jsnum \<Rightarrow> jsnum" where
  "jsCeil (Fin a) = Fin (of_int \<lceil>a\<rceil>)"
| "jsCeil x = x"

fun jsMax :: "jsnum \<Rightarrow> jsnum \<Rightarrow> jsnum" where
  "jsMax NaN _ = NaN"
| "jsMax _ NaN = NaN"
| "jsMax a b = (if jsLt a b then b else a)"

fun orZero :: "jsnum \<Rightarrow> jsnum" where
  "orZero NaN = Fin 0"
| "orZero x = x"

text \<open>
  \<^verbatim>\<open>JSON.stringify\<close> writes a number that is not finite as \<^verbatim>\<open>null\<close>, and every place
  that reads the quantity of a stock line applies \<^verbatim>\<open>Number\<close> to it, which takes
  \<^verbatim>\<open>null\<close> to \<open>0\<close>. \<open>storedQuantity\<close> is the quantity that the readers of the ledger
  find after a computed quantity has been saved.
\<close>

fun storedQuantity :: "jsnum \<Rightarrow> number" where
  "storedQuantity (Fin a) = a"
| "storedQuantity _ = 0"

section \<open>Stock-health categorization\<close>

datatype category = Critical | Low | Adequate | Overstocked

text \<open>
  \<^verbatim>\<open>
  export function categorizeStock(total, reorderPoint) {
    const rp = Number(reorderPoint) || 0;
    if (rp <= 0) return 'adequate';
    if (total < 0.5 * rp) return 'critical';
    if (total < rp) return 'low';
    if (total < 2 * rp) return 'adequate';
    return 'overstocked';
  }
  \<close>
  The arguments are numbers; \<^verbatim>\<open>Number\<close> leaves them as they are.
\<close>

definition categorizeStock :: "jsnum \<Rightarrow> jsnum \<Rightarrow> category" where
  "categorizeStock tot reorderPoint =
     (let rp = orZero reorderPoint in
      if jsLe rp (Fin 0) then Adequate
      else if jsLt tot (jsMul (Fin 0.5) rp) then Critical
      else if jsLt tot rp then Low
      else if jsLt tot (jsMul (Fin 2) rp) then Adequate
      else Overstocked)"

text \<open>
  The note of a recommendation is one of four templates of the source; the two that
  interpolate the target carry it as an argument:
  \<^verbatim>\<open>'No reorder point set'\<close>, \<^verbatim>\<open>`Raise to ~1.5x RP (${target})`\<close>,
  \<^verbatim>\<open>`Raise to RP (${target})`\<close>, \<^verbatim>\<open>'Adequate or overstocked - no action'\<close>.
\<close>

datatype reorder_note = NoReorderPointSet | RaiseToOneAndHalfRP jsnum | RaiseToRP jsnum | NoAction

text \<open>
  \<^verbatim>\<open>
  export function recommendReorder(total, reorderPoint) {
    const rp = Number(reorderPoint) || 0;
    if (rp <= 0) return { recommendedQty: 0, note: 'No reorder point set' };
    const category = categorizeStock(total, rp);
    if (category === 'critical') {
      const target = Math.ceil(1.5 * rp);
      return { recommendedQty: Math.max(0, target - total), note: `Raise to ~1.5x RP (${target})` };
    }
    if (category === 'low') {
      const target = rp;
      return { recommendedQty: Math.max(0, target - total), note: `Raise to RP (${target})` };
    }
    return { recommendedQty: 0, note: 'Adequate or overstocked - no action' };
  }
  \<close>
\<close>

definition recommendReorder :: "jsnum \<Rightarrow> jsnum \<Rightarrow> jsnum \<times> reorder_note" where
  "recommendReorder tot reorderPoint =
     (let rp = orZero reorderPoint in
      if jsLe rp (Fin 0) then (Fin 0, NoReorderPointSet)
      else let category = categorizeStock tot rp in
        if category = Critical then
          (let target = jsCeil (jsMul (Fin 1.5) rp)
           in (jsMax (Fin 0) (jsSub target tot), RaiseToOneAndHalfRP target))
        else if category = Low then
          (let target = rp in (jsMax (Fin 0) (jsSub target tot), RaiseToRP target))
        else (Fin 0, NoAction))"

section \<open>Persisted collections\<close>

text \<open>
  The five JSON collections of \<^verbatim>\<open>data/\<close>. Field names carry the initial of their
  record, since several records of the source share the names \<^verbatim>\<open>id\<close> and
  \<^verbatim>\<open>productId\<close>.
\<close>

record product =
  p_id :: number
  p_sku :: string
  p_name :: string
  p_category :: string
  p_reorderPoint :: number
  p_unitCost :: number

record warehouse =
  w_id :: number
  w_name :: string

text \<open>
  A stock line is persisted with a finite quantity (\<open>number stock_line\<close>); in the array
  that \<^verbatim>\<open>performStockTransfer\<close> mutates, a quantity is whatever the arithmetic returned
  (\<open>jsnum stock_line\<close>).
\<close>

record 'q stock_line =
  s_id :: number
  s_productId :: number
  s_warehouseId :: number
  s_quantity :: 'q

record transfer =
  t_id :: string
  t_productId :: number
  t_fromWarehouseId :: number
  t_toWarehouseId :: number
  t_quantity :: number
  t_createdAt :: string
  t_status :: string

text \<open>
  The total and the recommended quantity of an alert are stored as computed. When one of
  them is not finite, JSON writes \<^verbatim>\<open>null\<close> in its place; no modelled function reads
  these two fields or the target in the note, so the model keeps the computed value.
\<close>

record alert =
  a_id :: string
  a_productId :: number
  a_sku :: string
  a_productName :: string
  a_reorderPoint :: number
  a_totalStock :: jsnum
  a_category :: category
  a_recommendedQty :: jsnum
  a_note :: reorder_note
  a_workflowStatus :: string
  a_createdAt :: string
  a_updatedAt :: string
  a_comment :: "string option"

record db =
  products :: "product list"
  warehouses :: "warehouse list"
  stock :: "number stock_line list"
  transfers :: "transfer list"
  alerts :: "alert list"

text \<open>Every \<^verbatim>\<open>throw new Error(message)\<close> of the modelled functions, one constructor per message.\<close>

datatype error =
    InvalidProductId
  | InvalidWarehouseId
  | SameWarehouse
  | InvalidQuantity
  | ProductNotFound
  | SourceWarehouseNotFound
  | DestinationWarehouseNotFound
  | InsufficientStock
  | SourceStockRecordNotFound
  | AlertNotFound
  | InvalidWorkflowStatus

section \<open>Derived totals\<close>

text \<open>
  \<^verbatim>\<open>
  stock
    .filter(s => Number(s.productId) === Number(productId))
    .reduce((sum, s) => sum + (Number(s.quantity) || 0), 0);
  \<close>
  the body of \<^verbatim>\<open>getTotalStockForProduct\<close>, which \<^verbatim>\<open>generateAlerts\<close> repeats for each
  product; the stock collection is passed in.
\<close>

definition getTotalStockForProduct :: "number stock_line list \<Rightarrow> number \<Rightarrow> jsnum" where
  "getTotalStockForProduct stk productId =
     foldl (\<lambda>sum s. jsAdd sum (orZero (Fin (s_quantity s)))) (Fin 0)
       (filter (\<lambda>s. s_productId s = productId) stk)"


text \<open>
  A quantity that is a whole, non-negative number of units of size \<open>2\<^sup>k\<close> (of single units
  for \<open>k = 0\<close>): sums and differences of such quantities are not rounded as long as they
  stay below \<open>2\<^sup>5\<^sup>3\<close> units.
\<close>

definition wholeUnits :: "int \<Rightarrow> number \<Rightarrow> bool" where
  "wholeUnits k x \<longleftrightarrow> 0 \<le> x \<and> of_int \<lfloor>x / 2 powi k\<rfloor> * 2 powi k = x"

section \<open>Stock transfer\<close>

text \<open>
  \<^verbatim>\<open>Array.prototype.find\<close> returns a reference to the first matching object, which the
  caller then mutates. The objects of a freshly parsed array are pairwise distinct, so the
  reference is modelled by the index of the object.
\<close>

fun findIndex :: "('a \<Rightarrow> bool) \<Rightarrow> 'a list \<Rightarrow> nat option" where
  "findIndex P [] = None"
| "findIndex P (x # xs) = (if P x then Some 0 else map_option Suc (findIndex P xs))"

record transfer_request =
  r_productId :: jsnum
  r_fromWarehouseId :: jsnum
  r_toWarehouseId :: jsnum
  r_quantity :: jsnum

text \<open>
  The readings of the clock that one call of \<^verbatim>\<open>performStockTransfer\<close> takes:
  \<^verbatim>\<open>Date.now()\<close> for the id of a created stock line, and
  \<^verbatim>\<open>new Date().toISOString()\<close> once for the id of the transfer and once for its
  creation time.
\<close>

record clock =
  dateNow :: number
  isoForId :: string
  isoCreatedAt :: string

text \<open>\<^verbatim>\<open>String(n).padStart(4, '0')\<close> for a natural number \<open>n\<close>.\<close>

function decimal :: "nat \<Rightarrow> string" where
  "decimal n = (if n < 10 then [''0123456789'' ! n] else decimal (n div 10) @ [''0123456789'' ! (n mod 10)])"
  by pat_completeness auto
termination
  by (relation "measure (\<lambda>n. n)") auto

declare decimal.simps [simp del]

definition padStart4 :: "string \<Rightarrow> string" where
  "padStart4 str = replicate (4 - length str) CHR ''0'' @ str"

text \<open>
  Lines 179 to 187 of \<^verbatim>\<open>performStockTransfer\<close>: the four fields are coerced with
  \<^verbatim>\<open>Number\<close> (they arrive here coerced) and checked in this order.
  \<^verbatim>\<open>
  if (!Number.isFinite(pid)) throw new Error('Invalid productId');
  if (!Number.isFinite(fromId) || !Number.isFinite(toId)) throw new Error('Invalid warehouseId');
  if (fromId === toId) throw new Error('Source and destination warehouses must differ');
  if (!Number.isFinite(qty) || qty <= 0) throw new Error('Quantity must be a positive number');
  \<close>
\<close>

definition validateRequest :: "transfer_request \<Rightarrow> error + (number \<times> number \<times> number \<times> number)" where
  "validateRequest req =
     (case r_productId req of
        Fin pid \<Rightarrow>
          (case r_fromWarehouseId req of
             Fin fromId \<Rightarrow>
               (case r_toWarehouseId req of
                  Fin toId \<Rightarrow>
                    if fromId = toId then Inl SameWarehouse
                    else (case r_quantity req of
                            Fin qty \<Rightarrow>
                              if qty \<le> 0 then Inl InvalidQuantity
                              else Inr (pid, fromId, toId, qty)
                          | _ \<Rightarrow> Inl InvalidQuantity)
                | _ \<Rightarrow> Inl InvalidWarehouseId)
           | _ \<Rightarrow> Inl InvalidWarehouseId)
      | _ \<Rightarrow> Inl InvalidProductId)"

text \<open>
  \<^verbatim>\<open>const sourceQty = source ? Number(source.quantity) : 0;\<close> where \<open>source\<close> is the
  first stock line of the product at the source warehouse.
\<close>

definition sourceQtyOf :: "number stock_line list \<Rightarrow> number \<Rightarrow> number \<Rightarrow> number" where
  "sourceQtyOf stk pid fromId =
     (case findIndex (\<lambda>s. s_productId s = pid \<and> s_warehouseId s = fromId) stk of
        Some i \<Rightarrow> s_quantity (stk ! i)
      | None \<Rightarrow> 0)"

text \<open>
  \<open>parsedLine\<close> is a stock line as \<^verbatim>\<open>JSON.parse\<close> delivers it to the code, \<open>savedLine\<close>
  a line of the mutated array as \<^verbatim>\<open>saveStock\<close> leaves it for the next reader.
\<close>

definition parsedLine :: "number stock_line \<Rightarrow> jsnum stock_line" where
  "parsedLine s = \<lparr>s_id = s_id s, s_productId = s_productId s, s_warehouseId = s_warehouseId s,
                   s_quantity = Fin (s_quantity s)\<rparr>"

definition savedLine :: "jsnum stock_line \<Rightarrow> number stock_line" where
  "savedLine s = \<lparr>s_id = s_id s, s_productId = s_productId s, s_warehouseId = s_warehouseId s,
                  s_quantity = storedQuantity (s_quantity s)\<rparr>"

text \<open>
  Lines 189 to 240: the catalog checks, the two lookups in the stock collection, the
  availability check, the check that the source line exists, the mutation of the two
  lines, \<^verbatim>\<open>saveStock\<close> and then \<^verbatim>\<open>saveTransfers\<close>. The quantities read are finite, so
  the comparison \<^verbatim>\<open>sourceQty < qty\<close> is the comparison of two rationals; the difference
  \<^verbatim>\<open>sourceQty - qty\<close> and the sum \<^verbatim>\<open>Number(dest.quantity) + qty\<close> are rounded. The result
  pairs the outcome (the error thrown, or the returned \<^verbatim>\<open>{ transfer, stock }\<close>) with the
  persisted collections after the call. Each \<^verbatim>\<open>throw\<close> precedes both the mutation and
  the two saves, so it leaves the collections as they were read.
\<close>

definition applyTransfer ::
  "clock \<Rightarrow> db \<Rightarrow> number \<Rightarrow> number \<Rightarrow> number \<Rightarrow> number
     \<Rightarrow> (error + transfer \<times> jsnum stock_line list) \<times> db" where
  "applyTransfer clk d pid fromId toId qty =
     (if List.find (\<lambda>p. p_id p = pid) (products d) = None then (Inl ProductNotFound, d)
      else if List.find (\<lambda>w. w_id w = fromId) (warehouses d) = None then (Inl SourceWarehouseNotFound, d)
      else if List.find (\<lambda>w. w_id w = toId) (warehouses d) = None then (Inl DestinationWarehouseNotFound, d)
      else
        let stock0 = map parsedLine (stock d);
            source = findIndex (\<lambda>s. s_productId s = pid \<and> s_warehouseId s = fromId) (stock d);
            dest = findIndex (\<lambda>s. s_productId s = pid \<and> s_warehouseId s = toId) (stock d);
            sourceQty = sourceQtyOf (stock d) pid fromId
        in if sourceQty < qty then (Inl InsufficientStock, d)
           else (case source of
               None \<Rightarrow> (Inl SourceStockRecordNotFound, d)
             | Some i \<Rightarrow>
                 let stock1 = stock0[i := (stock0 ! i)\<lparr>s_quantity := jsSub (Fin sourceQty) (Fin qty)\<rparr>];
                     stock2 = (case dest of
                         Some j \<Rightarrow>
                           stock1[j := (stock1 ! j)\<lparr>s_quantity := jsAdd (s_quantity (stock1 ! j)) (Fin qty)\<rparr>]
                       | None \<Rightarrow> stock1 @ [\<lparr>s_id = dateNow clk, s_productId = pid,
                                             s_warehouseId = toId, s_quantity = Fin qty\<rparr>]);
                     seq = padStart4 (decimal (length (transfers d) + 1));
                     tid = ''T-'' @ filter (\<lambda>c. c \<noteq> CHR ''-'') (take 10 (isoForId clk)) @ ''-'' @ seq;
                     transferRecord = \<lparr>t_id = tid, t_productId = pid, t_fromWarehouseId = fromId,
                                       t_toWarehouseId = toId, t_quantity = qty,
                                       t_createdAt = isoCreatedAt clk, t_status = ''COMPLETED''\<rparr>;
                     updatedTransfers = transferRecord # transfers d
                 in (Inr (transferRecord, stock2),
                     d\<lparr>stock := map savedLine stock2, transfers := updatedTransfers\<rparr>)))"

definition performStockTransfer ::
  "clock \<Rightarrow> db \<Rightarrow> transfer_request \<Rightarrow> (error + transfer \<times> jsnum stock_line list) \<times> db" where
  "performStockTransfer clk d req =
     (case validateRequest req of
        Inl e \<Rightarrow> (Inl e, d)
      | Inr (pid, fromId, toId, qty) \<Rightarrow> applyTransfer clk d pid fromId toId qty)"

text \<open>The ledgers that successful transfers lead to, whatever the catalog and the clock at each call.\<close>

inductive transfersLeadTo :: "number stock_line list \<Rightarrow> number stock_line list \<Rightarrow> bool" where
  start: "transfersLeadTo stk stk"
| transfer: "transfersLeadTo stk stk1 \<Longrightarrow> stock d = stk1
     \<Longrightarrow> performStockTransfer clk d req = (Inr res, d') \<Longrightarrow> stk2 = stock d'
     \<Longrightarrow> transfersLeadTo stk stk2"

section \<open>Alerts\<close>

subsection \<open>Reconciliation\<close>

text \<open>
  \<^verbatim>\<open>generateAlerts\<close> builds a \<^verbatim>\<open>Map\<close> from product id to Alert object and an array
  \<^verbatim>\<open>updated\<close> that shares these objects, and then mutates the objects through the map.
  The sharing is modelled by a store: the objects live in \<open>heap\<close>, addressed by their
  position (a new object is appended, so addresses never change); \<open>updated\<close> and
  \<open>alertByProduct\<close> hold addresses.
\<close>

record alert_store =
  heap :: "alert list"
  updated :: "nat list"
  alertByProduct :: "number \<rightharpoonup> nat"

text \<open>
  \<^verbatim>\<open>
  const alertByProduct = new Map((existingAlerts || []).map(a => [Number(a.productId), a]));
  const updated = [...(existingAlerts || [])];
  \<close>
  The constructor of \<^verbatim>\<open>Map\<close> enters the pairs in order, a later pair replacing an
  earlier one with the same key.
\<close>

definition initialStore :: "alert list \<Rightarrow> alert_store" where
  "initialStore existingAlerts =
     \<lparr>heap = existingAlerts,
      updated = [0..<length existingAlerts],
      alertByProduct =
        foldl (\<lambda>m i. m(a_productId (existingAlerts ! i) \<mapsto> i)) Map.empty [0..<length existingAlerts]\<rparr>"

text \<open>
  The three ways in which the loop body writes an Alert: the five assignments of the
  refresh (lines 313 to 317), the two assignments of the auto-resolve (lines 340, 341) and
  the object literal of a new Alert (lines 320 to 333). \<open>numStr\<close> stands for the
  conversion of a number to a string in the template \<^verbatim>\<open>`A-${now}-${pid}`\<close>.
\<close>

definition refreshAlert :: "string \<Rightarrow> jsnum \<Rightarrow> category \<Rightarrow> jsnum \<Rightarrow> reorder_note \<Rightarrow> alert \<Rightarrow> alert" where
  "refreshAlert now tot category recommendedQty noteText existing =
     existing\<lparr>a_totalStock := tot, a_category := category, a_recommendedQty := recommendedQty,
              a_note := noteText, a_updatedAt := now\<rparr>"

definition resolveAlert :: "string \<Rightarrow> alert \<Rightarrow> alert" where
  "resolveAlert now existing = existing\<lparr>a_workflowStatus := ''RESOLVED'', a_updatedAt := now\<rparr>"

definition newAlert ::
  "(number \<Rightarrow> string) \<Rightarrow> string \<Rightarrow> product \<Rightarrow> jsnum \<Rightarrow> category \<Rightarrow> jsnum \<Rightarrow> reorder_note \<Rightarrow> alert" where
  "newAlert numStr now p tot category recommendedQty noteText =
     \<lparr>a_id = ''A-'' @ now @ ''-'' @ numStr (p_id p),
      a_productId = p_id p,
      a_sku = p_sku p,
      a_productName = p_name p,
      a_reorderPoint = p_reorderPoint p,
      a_totalStock = tot,
      a_category = category,
      a_recommendedQty = recommendedQty,
      a_note = noteText,
      a_workflowStatus = ''NEW'',
      a_createdAt = now,
      a_updatedAt = now,
      a_comment = None\<rparr>"

text \<open>
  The body of \<^verbatim>\<open>for (const p of products)\<close>, lines 300 to 343.
\<close>

definition reconcileProduct ::
  "(number \<Rightarrow> string) \<Rightarrow> string \<Rightarrow> number stock_line list \<Rightarrow> alert_store \<Rightarrow> product \<Rightarrow> alert_store" where
  "reconcileProduct numStr now stk st p =
     (let pid = p_id p;
          tot = getTotalStockForProduct stk pid;
          category = categorizeStock tot (Fin (p_reorderPoint p));
          (recommendedQty, noteText) = recommendReorder tot (Fin (p_reorderPoint p));
          existing = alertByProduct st pid
      in if category = Critical \<or> category = Low then
           (case existing of
              Some r \<Rightarrow>
                if a_workflowStatus (heap st ! r) \<noteq> ''RESOLVED'' then
                  st\<lparr>heap := (heap st)[r := refreshAlert now tot category recommendedQty noteText (heap st ! r)]\<rparr>
                else st
            | None \<Rightarrow>
                let alert = newAlert numStr now p tot category recommendedQty noteText;
                    r = length (heap st)
                in st\<lparr>heap := heap st @ [alert],
                      updated := r # updated st,
                      alertByProduct := (alertByProduct st)(pid \<mapsto> r)\<rparr>)
         else
           (case existing of
              Some r \<Rightarrow>
                if a_workflowStatus (heap st ! r) \<noteq> ''RESOLVED'' then
                  st\<lparr>heap := (heap st)[r := resolveAlert now (heap st ! r)]\<rparr>
                else st
            | None \<Rightarrow> st))"

text \<open>
  \<^verbatim>\<open>generateAlerts\<close>: the loop over the products, then \<^verbatim>\<open>saveAlerts(updated)\<close> and
  \<^verbatim>\<open>return updated\<close>. The result is the alerts collection as it is persisted and
  returned; \<open>now\<close> is the one reading of the clock that the call takes.
\<close>

definition generateAlerts ::
  "(number \<Rightarrow> string) \<Rightarrow> string \<Rightarrow> product list \<Rightarrow> number stock_line list \<Rightarrow> alert list \<Rightarrow> alert list" where
  "generateAlerts numStr now ps stk existingAlerts =
     (let st = foldl (reconcileProduct numStr now stk) (initialStore existingAlerts) ps
      in map (\<lambda>r. heap st ! r) (updated st))"

subsection \<open>Reconciliation read on the list of alerts\<close>

text \<open>
  The definitions of this subsection are not taken from the source: they describe what
  one pass of the loop does to the array \<open>updated\<close> seen as a list of alerts, and the
  store above is proved to behave so. \<open>alertsOf\<close> reads the array of a store;
  \<open>storeInv\<close> says that the array holds each address once and that the map sends a
  product id to the last object of the array with that id; \<open>updLast\<close> changes the last
  element of a list that satisfies a predicate.
\<close>

fun lastRef :: "(alert \<Rightarrow> bool) \<Rightarrow> alert list \<Rightarrow> nat list \<Rightarrow> nat option" where
  "lastRef P h [] = None"
| "lastRef P h (r # rs) =
     (case lastRef P h rs of Some r' \<Rightarrow> Some r' | None \<Rightarrow> if P (h ! r) then Some r else None)"

fun updLast :: "('a \<Rightarrow> bool) \<Rightarrow> ('a \<Rightarrow> 'a) \<Rightarrow> 'a list \<Rightarrow> 'a list" where
  "updLast P f [] = []"
| "updLast P f (x # xs) =
     (if list_ex P xs then x # updLast P f xs else if P x then f x # xs else x # xs)"

definition alertsOf :: "alert_store \<Rightarrow> alert list" where
  "alertsOf st = map (\<lambda>r. heap st ! r) (updated st)"

definition storeInv :: "alert_store \<Rightarrow> bool" where
  "storeInv st \<longleftrightarrow>
     distinct (updated st) \<and> list_all (\<lambda>r. r < length (heap st)) (updated st) \<and>
     (\<forall>pid. alertByProduct st pid = lastRef (\<lambda>a. a_productId a = pid) (heap st) (updated st))"

definition breached :: "number stock_line list \<Rightarrow> product \<Rightarrow> bool" where
  "breached stk p =
     (let category = categorizeStock (getTotalStockForProduct stk (p_id p)) (Fin (p_reorderPoint p))
      in category = Critical \<or> category = Low)"

definition reconcileExisting :: "string \<Rightarrow> number stock_line list \<Rightarrow> product \<Rightarrow> alert \<Rightarrow> alert" where
  "reconcileExisting now stk p existing =
     (let tot = getTotalStockForProduct stk (p_id p);
          category = categorizeStock tot (Fin (p_reorderPoint p));
          (recommendedQty, noteText) = recommendReorder tot (Fin (p_reorderPoint p))
      in if a_workflowStatus existing = ''RESOLVED'' then existing
         else if category = Critical \<or> category = Low then refreshAlert now tot category recommendedQty noteText existing
         else resolveAlert now existing)"

definition createdAlert :: "(number \<Rightarrow> string) \<Rightarrow> string \<Rightarrow> number stock_line list \<Rightarrow> product \<Rightarrow> alert" where
  "createdAlert numStr now stk p =
     (let tot = getTotalStockForProduct stk (p_id p);
          category = categorizeStock tot (Fin (p_reorderPoint p));
          (recommendedQty, noteText) = recommendReorder tot (Fin (p_reorderPoint p))
      in newAlert numStr now p tot category recommendedQty noteText)"

definition reconcileList ::
  "(number \<Rightarrow> string) \<Rightarrow> string \<Rightarrow> number stock_line list \<Rightarrow> alert list \<Rightarrow> product \<Rightarrow> alert list" where
  "reconcileList numStr now stk as p =
     (if list_ex (\<lambda>a. a_productId a = p_id p) as
      then updLast (\<lambda>a. a_productId a = p_id p) (reconcileExisting now stk p) as
      else if breached stk p then createdAlert numStr now stk p # as
      else as)"

text \<open>
  What a second pass does to the alert that the map returns for a product \<open>p\<close>: an
  unresolved alert of a critical or low product gets the time of the pass, any other alert
  is left as it is. \<open>refreshedAlert\<close> says that the alert at position \<open>i\<close> of a collection
  is such an alert for some product of the catalog: it is unresolved, no later alert of
  the collection has its product id (so the map returns it), and a product of the catalog
  with that id is critical or low.
\<close>

definition restamp :: "string \<Rightarrow> number stock_line list \<Rightarrow> product \<Rightarrow> alert \<Rightarrow> alert" where
  "restamp now stk p a =
     (if a_workflowStatus a \<noteq> ''RESOLVED'' \<and> breached stk p then a\<lparr>a_updatedAt := now\<rparr> else a)"

definition lastOfProduct :: "alert list \<Rightarrow> nat \<Rightarrow> bool" where
  "lastOfProduct as i \<longleftrightarrow>
     \<not> list_ex (\<lambda>a. a_productId a = a_productId (as ! i)) (drop (Suc i) as)"

definition refreshedAlert :: "product list \<Rightarrow> number stock_line list \<Rightarrow> alert list \<Rightarrow> nat \<Rightarrow> bool" where
  "refreshedAlert ps stk as i \<longleftrightarrow>
     a_workflowStatus (as ! i) \<noteq> ''RESOLVED'' \<and> lastOfProduct as i \<and>
     list_ex (\<lambda>p. p_id p = a_productId (as ! i) \<and> breached stk p) ps"

subsection \<open>Workflow\<close>

text \<open>
  \<^verbatim>\<open>
  export async function updateAlertStatus(id, workflowStatus, comment) {
    const alerts = await getAlerts();
    const alert = alerts.find(a => a.id === id);
    if (!alert) throw new Error('Alert not found');
    const valid = ['NEW', 'ACKNOWLEDGED', 'ORDERED', 'RESOLVED'];
    if (!valid.includes(workflowStatus)) throw new Error('Invalid workflow status');
    alert.workflowStatus = workflowStatus;
    alert.updatedAt = new Date().toISOString();
    if (comment) alert.comment = comment;
    await saveAlerts(alerts);
    return alert;
  }
  \<close>
  The comment is absent (\<open>None\<close>) or a string; \<^verbatim>\<open>if (comment)\<close> holds for a
  non-empty string only. The result pairs the outcome with the persisted alerts.
\<close>

definition valid :: "string list" where
  "valid = [''NEW'', ''ACKNOWLEDGED'', ''ORDERED'', ''RESOLVED'']"

definition truthy :: "string option \<Rightarrow> bool" where
  "truthy comment = (case comment of None \<Rightarrow> False | Some c \<Rightarrow> c \<noteq> [])"

definition updateAlertStatus ::
  "string \<Rightarrow> alert list \<Rightarrow> string \<Rightarrow> string \<Rightarrow> string option \<Rightarrow> (error + alert) \<times> alert list" where
  "updateAlertStatus now alerts0 ident workflowStatus comment =
     (case findIndex (\<lambda>a. a_id a = ident) alerts0 of
        None \<Rightarrow> (Inl AlertNotFound, alerts0)
      | Some i \<Rightarrow>
          if workflowStatus \<notin> set valid then (Inl InvalidWorkflowStatus, alerts0)
          else
            let alert1 = (alerts0 ! i)\<lparr>a_workflowStatus := workflowStatus\<rparr>;
                alert2 = alert1\<lparr>a_updatedAt := now\<rparr>;
                alert3 = (if truthy comment then alert2\<lparr>a_comment := comment\<rparr> else alert2)
            in (Inr alert3, alerts0[i := alert3]))"

text \<open>
  The alert collections that calls of \<^verbatim>\<open>generateAlerts\<close> and
  \<^verbatim>\<open>updateAlertStatus\<close> (successful or not) lead to from the empty collection, whatever
  the catalog, the ledger and the clock at each call.
\<close>

inductive reachableAlerts :: "alert list \<Rightarrow> bool" where
  initial: "reachableAlerts []"
| generate: "reachableAlerts as \<Longrightarrow> reachableAlerts (generateAlerts numStr now ps stk as)"
| update: "reachableAlerts as \<Longrightarrow> updateAlertStatus now as ident workflowStatus comment = (res, as')
     \<Longrightarrow> reachableAlerts as'"

section \<open>A small catalog and ledger\<close>

text \<open>
  One product with reorder point 100, three warehouses, and 30 and 10 units of the product
  in the first two of them: the scenario of the specification, used to run the functions.
\<close>

definition exampleProduct :: product where
  "exampleProduct = \<lparr>p_id = 1, p_sku = ''P-1'', p_name = ''P'', p_category = ''demo'',
     p_reorderPoint = 100, p_unitCost = 2\<rparr>"

definition exampleDb :: db where
  "exampleDb = \<lparr>products = [exampleProduct],
     warehouses = [\<lparr>w_id = 1, w_name = ''W1''\<rparr>, \<lparr>w_id = 2, w_name = ''W2''\<rparr>, \<lparr>w_id = 3, w_name = ''W3''\<rparr>],
     stock = [\<lparr>s_id = 1, s_productId = 1, s_warehouseId = 1, s_quantity = 30\<rparr>,
              \<lparr>s_id = 2, s_productId = 1, s_warehouseId = 2, s_quantity = 10\<rparr>],
     transfers = [], alerts = []\<rparr>"

definition exampleClock :: clock where
  "exampleClock = \<lparr>dateNow = 1700000000000, isoForId = ''2023-11-14T22:13:20.000Z'',
     isoCreatedAt = ''2023-11-14T22:13:20.000Z''\<rparr>"

definition exampleRequest :: "number \<Rightarrow> number \<Rightarrow> number \<Rightarrow> transfer_request" where
  "exampleRequest fromId toId qty =
     \<lparr>r_productId = Fin 1, r_fromWarehouseId = Fin fromId, r_toWarehouseId = Fin toId, r_quantity = Fin qty\<rparr>"

text \<open>An alert of the kind that \<^verbatim>\<open>generateAlerts\<close> creates for this product, with a comment.\<close>

definition exampleAlert :: "string \<Rightarrow> number \<Rightarrow> string \<Rightarrow> alert" where
  "exampleAlert ident pid status =
     \<lparr>a_id = ident, a_productId = pid, a_sku = ''P-1'', a_productName = ''P'', a_reorderPoint = 100,
      a_totalStock = Fin 40, a_category = Critical, a_recommendedQty = Fin 110,
      a_note = RaiseToOneAndHalfRP (Fin 150),
      a_workflowStatus = status, a_createdAt = ''2023-11-14T22:13:20.000Z'',
      a_updatedAt = ''2023-11-14T22:13:20.000Z'', a_comment = Some ''seen''\<rparr>"

text \<open>A rendering of the product ids 1 and 2, to run \<^verbatim>\<open>generateAlerts\<close> in this catalog.\<close>

definition exampleNumStr :: "number \<Rightarrow> string" where
  "exampleNumStr n = (if n = 1 then ''1'' else ''2'')"

text \<open>
  A catalog of two products for the second pass: the first product as above, a second one
  with reorder point 10 and 50 units in stock; and two alerts that exist before the first
  pass, an open one of the second product and an open one of a product that is not in the
  catalog.
\<close>

definition exampleProduct2 :: product where
  "exampleProduct2 = \<lparr>p_id = 2, p_sku = ''P-2'', p_name = ''Q'', p_category = ''demo'',
     p_reorderPoint = 10, p_unitCost = 3\<rparr>"

definition exampleStock2 :: "number stock_line list" where
  "exampleStock2 = stock exampleDb @ [\<lparr>s_id = 3, s_productId = 2, s_warehouseId = 1, s_quantity = 50\<rparr>]"

definition exampleAlerts2 :: "alert list" where
  "exampleAlerts2 = [exampleAlert ''A-2'' 2 ''NEW'', exampleAlert ''A-7'' 7 ''ACKNOWLEDGED'']"


section \<open>Properties of the rounding\<close>

text \<open>
  Bounds of the binary exponent, the values that rounding leaves as they are (among them
  every product of an integer of at most 53 bits and a power of two within the range of
  the exponent), and rounded values at the inputs used below.
\<close>

lemma binexp_bounds:
  "0 < a \<Longrightarrow> 2 powi (binexp a) \<le> a \<and> a < 2 powi (binexp a + 1)"
proof (induction a rule: binexp.induct)
  case (1 a)
  show ?case
  proof (cases "2 \<le> a")
    case True
    then have ih: "2 powi (binexp (a / 2)) \<le> a / 2 \<and> a / 2 < 2 powi (binexp (a / 2) + 1)"
      using 1 by simp
    have b: "binexp a = binexp (a / 2) + 1" using True 1(3) by (subst binexp.simps) simp
    show ?thesis using ih unfolding b by (simp add: power_int_add field_simps)
  next
    case False
    show ?thesis
    proof (cases "a < 1")
      case True
      then have ih: "2 powi (binexp (a * 2)) \<le> a * 2 \<and> a * 2 < 2 powi (binexp (a * 2) + 1)"
        using 1 False by simp
      have b: "binexp a = binexp (a * 2) - 1" using True False 1(3) by (subst binexp.simps) simp
      show ?thesis using ih unfolding b by (simp add: power_int_add power_int_diff field_simps)
    next
      case f: False
      have b: "binexp a = 0" using f False 1(3) by (subst binexp.simps) simp
      show ?thesis using f False unfolding b by simp
    qed
  qed
qed

lemma binexp_unique:
  assumes "0 < a" and "2 powi e \<le> a" and "a < 2 powi (e + 1)"
  shows "binexp a = e"
proof -
  from binexp_bounds [OF assms(1)] have b: "2 powi (binexp a) \<le> a" "a < 2 powi (binexp a + 1)"
    by simp_all
  have "(2::rat) powi (binexp a) < 2 powi (e + 1)" using b(1) assms(3) by simp
  then have 1: "binexp a < e + 1"
    by (metis linorder_not_less one_le_numeral power_int_increasing)
  have "(2::rat) powi e < 2 powi (binexp a + 1)" using b(2) assms(2) by simp
  then have 2: "e < binexp a + 1"
    by (metis linorder_not_less one_le_numeral power_int_increasing)
  from 1 2 show ?thesis by simp
qed

lemma binexp_double: "0 < a \<Longrightarrow> binexp (2 * a) = binexp a + 1"
proof -
  assume a: "0 < a"
  from binexp_bounds [OF a] have "2 powi (binexp a + 1) \<le> 2 * a \<and> 2 * a < 2 powi (binexp a + 1 + 1)"
    by (simp add: power_int_add)
  then show ?thesis using a by (intro binexp_unique) simp_all
qed

lemma roundHalfEven_of_int [simp]: "roundHalfEven (of_int k) = k"
  by (simp add: roundHalfEven_def)

lemma roundHalfEven_nonneg: "0 \<le> y \<Longrightarrow> 0 \<le> roundHalfEven y"
  by (auto simp: roundHalfEven_def Let_def)

lemma roundMagnitude_nonneg: "0 \<le> a \<Longrightarrow> 0 \<le> roundMagnitude a"
  by (simp add: roundMagnitude_def roundHalfEven_nonneg)

lemma roundDouble_nonneg:
  assumes "0 \<le> x"
  shows "roundDouble x = PosInfinity \<or> (\<exists>r. 0 \<le> r \<and> roundDouble x = Fin r)"
  using assms roundMagnitude_nonneg [of x] by (auto simp: roundDouble_def)

lemma roundMagnitude_exact:
  assumes "a / 2 powi ulpExponent a = of_int m"
  shows "roundMagnitude a = a"
proof -
  have "a = of_int m * 2 powi ulpExponent a"
    using assms by (simp add: nonzero_divide_eq_eq)
  then show ?thesis unfolding roundMagnitude_def assms by simp
qed

lemma roundMagnitude_exactD:
  assumes "roundMagnitude a = a"
  shows "a / 2 powi ulpExponent a = of_int (roundHalfEven (a / 2 powi ulpExponent a))"
  using assms by (simp add: roundMagnitude_def field_simps)

lemma roundDouble_pos:
  "0 < x \<Longrightarrow> roundDouble x =
     (if overflowThreshold \<le> roundMagnitude x then PosInfinity else Fin (roundMagnitude x))"
  by (simp add: roundDouble_def)

lemma roundDouble_neg:
  "x < 0 \<Longrightarrow> roundDouble x =
     (if overflowThreshold \<le> roundMagnitude (- x) then NegInfinity else Fin (- roundMagnitude (- x)))"
  by (simp add: roundDouble_def)

lemma roundDouble_zero [simp]: "roundDouble 0 = Fin 0"
  by (simp add: roundDouble_def)

lemma roundDouble_exactD:
  assumes "roundDouble x = Fin x" and "0 < x"
  shows "roundMagnitude x = x \<and> x < overflowThreshold"
  using assms by (auto simp: roundDouble_pos split: if_splits)

lemma ulpExponent_double:
  "0 < a \<Longrightarrow> ulpExponent (2 * a) = ulpExponent a \<or> ulpExponent (2 * a) = ulpExponent a + 1"
  by (auto simp: ulpExponent_def binexp_double max_def)

lemma roundMagnitude_double:
  assumes "0 < a" and "roundMagnitude a = a"
  shows "roundMagnitude (2 * a) = 2 * a"
proof -
  let ?n = "roundHalfEven (a / 2 powi ulpExponent a)"
  from roundMagnitude_exactD [OF assms(2)] have n: "a / 2 powi ulpExponent a = of_int ?n" .
  from ulpExponent_double [OF assms(1)] show ?thesis
  proof
    assume e: "ulpExponent (2 * a) = ulpExponent a"
    have "2 * a / 2 powi ulpExponent (2 * a) = of_int (2 * ?n)"
      using n unfolding e by simp
    then show ?thesis by (rule roundMagnitude_exact)
  next
    assume e: "ulpExponent (2 * a) = ulpExponent a + 1"
    have "2 * a / 2 powi ulpExponent (2 * a) = of_int ?n"
      using n unfolding e by (simp add: power_int_add)
    then show ?thesis by (rule roundMagnitude_exact)
  qed
qed

lemma roundDouble_double:
  assumes "roundDouble rp = Fin rp" and "0 < rp"
  shows "roundDouble (2 * rp) = Fin (2 * rp) \<or>
     (roundDouble (2 * rp) = PosInfinity \<and> overflowThreshold \<le> 2 * rp)"
proof -
  from roundDouble_exactD [OF assms] have "roundMagnitude rp = rp" by simp
  then have "roundMagnitude (2 * rp) = 2 * rp" using assms(2) by (intro roundMagnitude_double)
  then show ?thesis using assms(2) by (simp add: roundDouble_pos)
qed

lemma roundDouble_exact_less:
  assumes "roundDouble t = Fin t"
  shows "t < overflowThreshold"
proof (cases "0 < t")
  case True
  then show ?thesis using roundDouble_exactD [OF assms] by simp
next
  case False
  then have "t \<le> 0" by simp
  also have "0 < overflowThreshold" by (simp add: overflowThreshold_def)
  finally show ?thesis .
qed

lemma two_powi_pos [simp]: "0 < (2::rat) powi k"
  by simp

lemma two_powi_less: "m < n \<Longrightarrow> (2::rat) powi m < 2 powi n"
  by (rule power_int_strict_increasing) simp_all

lemma two_powi_lessD: "(2::rat) powi m < 2 powi n \<Longrightarrow> m < n"
  by (metis linorder_not_less one_le_numeral power_int_increasing)

lemma two_powi_split: "(2::rat) powi (k + int j) = 2 powi k * 2 ^ j"
  by (simp add: power_int_add)

lemma binexp_two_powi: "binexp ((2::rat) powi e) = e"
  by (rule binexp_unique) (simp_all add: two_powi_less)

lemma roundMagnitude_dyadic:
  assumes "0 < n" and "n \<le> 2 ^ 53" and "- 1074 \<le> k"
  shows "roundMagnitude (of_int n * 2 powi k) = of_int n * 2 powi k"
proof -
  let ?a = "of_int n * (2::rat) powi k"
  have pos: "0 < ?a" using assms(1) by simp
  have p53: "(2::rat) powi (k + 53) = 2 powi k * 2 ^ 53"
    using two_powi_split [of k 53] by simp
  have "\<exists>m::int. ?a / 2 powi ulpExponent ?a = of_int m"
  proof (cases "n = 2 ^ 53")
    case True
    have a: "?a = 2 powi (k + 53)" unfolding p53 True by (simp add: mult.commute)
    have q: "ulpExponent ((2::rat) powi (k + 53)) = k + 1"
      using assms(3) by (simp add: ulpExponent_def binexp_two_powi)
    have "(2::rat) powi (k + 53) / 2 powi (k + 1) = 2 powi (k + 53 - (k + 1))"
      by (rule power_int_diff [symmetric]) simp
    also have "\<dots> = 2 powi 52" by simp
    also have "\<dots> = of_int (2 ^ 52)" by simp
    finally show ?thesis unfolding a q by blast
  next
    case False
    with assms(2) have lt: "n < 2 ^ 53" by simp
    have "rat_of_int n < rat_of_int (2 ^ 53)" using lt by (simp only: of_int_less_iff)
    then have "rat_of_int n < 2 ^ 53" by simp
    then have "of_int n * (2::rat) powi k < 2 ^ 53 * 2 powi k"
      by (rule mult_strict_right_mono) simp
    then have up: "?a < 2 powi (k + 53)" unfolding p53 by (simp only: mult.commute)
    have lo: "2 powi binexp ?a \<le> ?a" using binexp_bounds [OF pos] by simp
    from lo up have "(2::rat) powi binexp ?a < 2 powi (k + 53)" by (rule le_less_trans)
    then have "binexp ?a < k + 53" by (rule two_powi_lessD)
    then have qk: "ulpExponent ?a \<le> k" using assms(3) by (simp add: ulpExponent_def)
    define q where "q = ulpExponent ?a"
    from qk obtain j :: nat where j: "k = q + int j" unfolding q_def by (metis zle_iff_zadd)
    have pk: "(2::rat) powi k = 2 powi q * 2 ^ j"
      unfolding j by (rule two_powi_split)
    have "of_int n * (2::rat) powi k / 2 powi q = of_int n * 2 ^ j"
      unfolding pk by simp
    also have "\<dots> = of_int (n * 2 ^ j)" by simp
    finally show ?thesis unfolding q_def by blast
  qed
  then show ?thesis using roundMagnitude_exact by blast
qed

lemma overflowThreshold_pos: "0 < overflowThreshold"
  unfolding overflowThreshold_def by (rule two_powi_pos)

lemma dyadic_below_threshold:
  assumes "n \<le> 2 ^ 53" and "k \<le> 970"
  shows "rat_of_int n * 2 powi k < overflowThreshold"
proof -
  have "rat_of_int n \<le> rat_of_int (2 ^ 53)" using assms(1) by (simp only: of_int_le_iff)
  then have "rat_of_int n \<le> 2 ^ 53" by simp
  then have "rat_of_int n * 2 powi k \<le> 2 ^ 53 * 2 powi k"
    by (rule mult_right_mono) simp
  also have "\<dots> = 2 powi (k + 53)" using two_powi_split [of k 53] by (simp add: mult.commute)
  also have "\<dots> < 2 powi 1024" using assms(2) by (intro two_powi_less) simp
  finally show ?thesis by (simp only: overflowThreshold_def)
qed

lemma roundDouble_dyadic:
  assumes "0 \<le> n" and "n \<le> 2 ^ 53" and "- 1074 \<le> k" and "k \<le> 970"
  shows "roundDouble (of_int n * 2 powi k) = Fin (of_int n * 2 powi k)"
proof (cases "n = 0")
  case True
  then show ?thesis by simp
next
  case False
  with assms(1) have n: "0 < n" by simp
  then have pos: "0 < rat_of_int n * 2 powi k" by simp
  have "roundMagnitude (of_int n * 2 powi k) = of_int n * 2 powi k"
    using n assms(2,3) by (rule roundMagnitude_dyadic)
  moreover have "rat_of_int n * 2 powi k < overflowThreshold"
    using assms(2,4) by (rule dyadic_below_threshold)
  ultimately show ?thesis using pos by (simp add: roundDouble_pos)
qed

lemma roundDouble_of_int:
  assumes "0 \<le> n" and "n \<le> 2 ^ 53"
  shows "roundDouble (of_int n) = Fin (of_int n)"
  using roundDouble_dyadic [OF assms, of 0] by simp

lemma roundDouble_numeral [simp]:
  "(numeral w :: int) \<le> 2 ^ 53 \<Longrightarrow> roundDouble (numeral w) = Fin (numeral w)"
  using roundDouble_of_int [of "numeral w"] by simp

lemma roundDouble_one [simp]: "roundDouble 1 = Fin 1"
  using roundDouble_of_int [of 1] by simp

lemma roundDouble_at:
  assumes "0 < x" and "2 powi e \<le> x" and "x < 2 powi (e + 1)"
    and "q = max e (- 1022) - 52"
    and "r = of_int (roundHalfEven (x / 2 powi q)) * 2 powi q"
  shows "roundDouble x = (if overflowThreshold \<le> r then PosInfinity else Fin r)"
proof -
  have "binexp x = e" using assms(1-3) by (rule binexp_unique)
  then have "ulpExponent x = q" by (simp add: ulpExponent_def assms(4))
  then have "roundMagnitude x = r" by (simp add: roundMagnitude_def assms(5))
  then show ?thesis using assms(1) by (simp add: roundDouble_pos)
qed

lemma isDouble_zero [simp]: "isDouble 0"
  by (simp add: isDouble_def)

lemma isDouble_dyadic:
  "0 \<le> n \<Longrightarrow> n \<le> 2 ^ 53 \<Longrightarrow> - 1074 \<le> k \<Longrightarrow> k \<le> 970 \<Longrightarrow> isDouble (of_int n * 2 powi k)"
  unfolding isDouble_def by (rule roundDouble_dyadic)

lemma isDouble_numeral [simp]: "(numeral w :: int) \<le> 2 ^ 53 \<Longrightarrow> isDouble (numeral w)"
  by (simp add: isDouble_def)

lemma roundHalfEven_le_ceiling: "roundHalfEven y \<le> \<lceil>y\<rceil>"
proof -
  have "roundHalfEven y = \<lfloor>y\<rfloor> \<or> (roundHalfEven y = \<lfloor>y\<rfloor> + 1 \<and> 1 / 2 \<le> y - of_int \<lfloor>y\<rfloor>)"
    by (auto simp: roundHalfEven_def Let_def)
  then show ?thesis
  proof
    assume "roundHalfEven y = \<lfloor>y\<rfloor>"
    then show ?thesis by (simp add: floor_le_ceiling)
  next
    assume a: "roundHalfEven y = \<lfloor>y\<rfloor> + 1 \<and> 1 / 2 \<le> y - of_int \<lfloor>y\<rfloor>"
    then have "of_int \<lfloor>y\<rfloor> < y" by linarith
    then have "\<lfloor>y\<rfloor> < \<lceil>y\<rceil>" by (simp add: less_ceiling_iff)
    then show ?thesis using a by simp
  qed
qed

lemma binexp_mono:
  assumes "0 < x" and "x \<le> t"
  shows "binexp x \<le> binexp t"
proof -
  have t: "0 < t" using assms by simp
  from binexp_bounds [OF assms(1)] have "2 powi binexp x \<le> x" by simp
  moreover from binexp_bounds [OF t] have "t < 2 powi (binexp t + 1)" by simp
  ultimately have "(2::rat) powi binexp x < 2 powi (binexp t + 1)" using assms(2) by linarith
  then have "binexp x < binexp t + 1" by (rule two_powi_lessD)
  then show ?thesis by simp
qed

text \<open>Rounding does not pass a double: the rounding of a number below a double is at most that double.\<close>

lemma roundMagnitude_le_double:
  assumes "0 < x" and "x \<le> t" and "roundMagnitude t = t"
  shows "roundMagnitude x \<le> t"
proof -
  define qx where "qx = ulpExponent x"
  define qt where "qt = ulpExponent t"
  define K where "K = roundHalfEven (t / 2 powi qt)"
  have "qx \<le> qt" using binexp_mono [OF assms(1,2)] by (simp add: qx_def qt_def ulpExponent_def)
  then obtain j :: nat where j: "qt = qx + int j" by (metis nonneg_int_cases zle_iff_zadd)
  from roundMagnitude_exactD [OF assms(3)] have "t / 2 powi qt = of_int K"
    by (simp add: qt_def K_def)
  then have "t = of_int K * 2 powi qt" by (simp add: nonzero_divide_eq_eq)
  also have "\<dots> = of_int K * (2 powi qx * 2 ^ j)" unfolding j by (simp only: two_powi_split)
  also have "\<dots> = of_int (K * 2 ^ j) * 2 powi qx" by simp
  finally have t: "t = of_int (K * 2 ^ j) * 2 powi qx" .
  have "x / 2 powi qx \<le> t / 2 powi qx" using assms(2) by (simp add: divide_right_mono)
  also have "\<dots> = of_int (K * 2 ^ j)" by (subst t) simp
  finally have "\<lceil>x / 2 powi qx\<rceil> \<le> K * 2 ^ j" by (rule ceiling_le)
  then have "roundHalfEven (x / 2 powi qx) \<le> K * 2 ^ j"
    using roundHalfEven_le_ceiling [of "x / 2 powi qx"] by linarith
  then have "(of_int (roundHalfEven (x / 2 powi qx)) :: rat) \<le> of_int (K * 2 ^ j)"
    by (simp only: of_int_le_iff)
  then have "of_int (roundHalfEven (x / 2 powi qx)) * 2 powi qx \<le> of_int (K * 2 ^ j) * (2::rat) powi qx"
    by (rule mult_right_mono) simp
  then show ?thesis unfolding roundMagnitude_def qx_def [symmetric] using t by simp
qed

lemma roundDouble_le_double:
  assumes "isDouble t" and "0 < x" and "x \<le> t"
  shows "\<exists>r. roundDouble x = Fin r \<and> r \<le> t"
proof -
  have tp: "0 < t" using assms(2,3) by simp
  from assms(1) tp have m: "roundMagnitude t = t" and lt: "t < overflowThreshold"
    using roundDouble_exactD [of t] by (simp_all add: isDouble_def)
  have le: "roundMagnitude x \<le> t" using assms(2,3) m by (rule roundMagnitude_le_double)
  then have "roundMagnitude x < overflowThreshold" using lt by simp
  then have "roundDouble x = Fin (roundMagnitude x)" using assms(2) by (simp add: roundDouble_pos)
  then show ?thesis using le by simp
qed

lemma categorize_rows_from_half:
  assumes "isDouble t" and "isDouble rp" and "0 < rp" and "1 / 2 * rp \<le> t"
  shows "categorizeStock (Fin t) (Fin rp) =
     (if t < rp then Low else if t < 2 * rp then Adequate else Overstocked)"
proof -
  have "0 < 1 / 2 * rp" using assms(3) by simp
  with assms(1) obtain h where
    h: "roundDouble (1 / 2 * rp) = Fin h" "h \<le> t"
    using assms(4) roundDouble_le_double by blast
  have t: "t < overflowThreshold" using assms(1) roundDouble_exact_less by (simp add: isDouble_def)
  from roundDouble_double [of rp] assms(2,3)
  consider "roundDouble (2 * rp) = Fin (2 * rp)"
    | "roundDouble (2 * rp) = PosInfinity" "overflowThreshold \<le> 2 * rp"
    by (auto simp: isDouble_def)
  then show ?thesis
  proof cases
    case 1
    then show ?thesis using h assms(3) by (simp add: categorizeStock_def)
  next
    case 2
    then have "t < 2 * rp" using t by simp
    then show ?thesis using 2 h assms(3) by (simp add: categorizeStock_def)
  qed
qed

section \<open>Properties of categorization and recommendation\<close>

text \<open>
  Claim C7, as amended. For a total and a reorder point that are doubles,
  \<open>categorizeStock\<close> follows the threshold table, its rows read in order: adequate when
  the reorder point is not positive; for a positive reorder point, critical below half of
  it when that half is a double (the product \<open>0.5 * rp\<close> is not rounded), low from half
  of it up to it, adequate from it up to twice it, and overstocked from twice it on. At
  reorder point 100 the totals 40, 60, 150 and 250 are critical, low, adequate and
  overstocked.
\<close>

theorem categorizeStock_table:
  assumes "isDouble t" and "isDouble rp"
  shows
  "(rp \<le> 0 \<longrightarrow> categorizeStock (Fin t) (Fin rp) = Adequate) \<and>
   (0 < rp \<and> isDouble (0.5 * rp) \<and> t < 0.5 * rp \<longrightarrow> categorizeStock (Fin t) (Fin rp) = Critical) \<and>
   (0 < rp \<and> 0.5 * rp \<le> t \<and> t < rp \<longrightarrow> categorizeStock (Fin t) (Fin rp) = Low) \<and>
   (0 < rp \<and> rp \<le> t \<and> t < 2 * rp \<longrightarrow> categorizeStock (Fin t) (Fin rp) = Adequate) \<and>
   (0 < rp \<and> 2 * rp \<le> t \<longrightarrow> categorizeStock (Fin t) (Fin rp) = Overstocked) \<and>
   categorizeStock (Fin 40) (Fin 100) = Critical \<and> categorizeStock (Fin 60) (Fin 100) = Low \<and>
   categorizeStock (Fin 150) (Fin 100) = Adequate \<and> categorizeStock (Fin 250) (Fin 100) = Overstocked"
proof -
  have r1: "rp \<le> 0 \<longrightarrow> categorizeStock (Fin t) (Fin rp) = Adequate"
    by (simp add: categorizeStock_def)
  have r2: "0 < rp \<and> isDouble (0.5 * rp) \<and> t < 0.5 * rp \<longrightarrow> categorizeStock (Fin t) (Fin rp) = Critical"
    by (simp add: categorizeStock_def isDouble_def)
  have r3: "0 < rp \<and> 0.5 * rp \<le> t \<and> t < rp \<longrightarrow> categorizeStock (Fin t) (Fin rp) = Low"
    using categorize_rows_from_half [OF assms] by simp
  have r4: "0 < rp \<and> rp \<le> t \<and> t < 2 * rp \<longrightarrow> categorizeStock (Fin t) (Fin rp) = Adequate"
  proof (intro impI)
    assume a: "0 < rp \<and> rp \<le> t \<and> t < 2 * rp"
    then have "1 / 2 * rp \<le> t" by simp
    then show "categorizeStock (Fin t) (Fin rp) = Adequate"
      using categorize_rows_from_half [OF assms] a by simp
  qed
  have r5: "0 < rp \<and> 2 * rp \<le> t \<longrightarrow> categorizeStock (Fin t) (Fin rp) = Overstocked"
  proof (intro impI)
    assume a: "0 < rp \<and> 2 * rp \<le> t"
    then have "1 / 2 * rp \<le> t" by simp
    then show "categorizeStock (Fin t) (Fin rp) = Overstocked"
      using categorize_rows_from_half [OF assms] a by simp
  qed
  have e: "categorizeStock (Fin 40) (Fin 100) = Critical" "categorizeStock (Fin 60) (Fin 100) = Low"
    "categorizeStock (Fin 150) (Fin 100) = Adequate" "categorizeStock (Fin 250) (Fin 100) = Overstocked"
    by (simp_all add: categorizeStock_def)
  show ?thesis by (intro conjI r1 r2 r3 r4 r5 e)
qed


lemma roundDouble_half_min_subnormal: "roundDouble (1 / 2 * 2 powi (- 1074)) = Fin 0"
proof -
  have "roundDouble (1 / 2 * 2 powi (- 1074)) =
     (if overflowThreshold \<le> 0 then PosInfinity else Fin 0)"
  proof (rule roundDouble_at [where e = "- 1075" and q = "- 1074"])
    have h: "(2::rat) powi (- 1074) = 2 powi (- 1075) * 2 ^ 1" 
      using two_powi_split [of "- 1075" 1] by simp
    show "0 < 1 / 2 * (2::rat) powi (- 1074)" by simp
    show "2 powi (- 1075) \<le> 1 / 2 * (2::rat) powi (- 1074)" unfolding h by simp
    show "1 / 2 * (2::rat) powi (- 1074) < 2 powi (- 1075 + 1)" by simp
    show "(- 1074::int) = max (- 1075) (- 1022) - 52" by simp
    have "1 / 2 * (2::rat) powi (- 1074) / 2 powi (- 1074) = 1 / 2" by simp
    moreover have "roundHalfEven (1 / 2) = 0" by code_simp
    ultimately show "(0::rat) = of_int (roundHalfEven (1 / 2 * 2 powi (- 1074) / 2 powi (- 1074))) * 2 powi (- 1074)"
      by simp
  qed
  then show ?thesis using overflowThreshold_pos by simp
qed


theorem categorizeStock_table_witness:
  "isDouble 3 \<and> isDouble 10 \<and> isDouble (0.5 * 10) \<and> isDouble (- 5) \<and>
   categorizeStock (Fin 0) (Fin (- 5)) = Adequate \<and> categorizeStock (Fin 3) (Fin 10) = Critical \<and>
   categorizeStock (Fin 5) (Fin 10) = Low \<and> categorizeStock (Fin 10) (Fin 10) = Adequate \<and>
   categorizeStock (Fin 20) (Fin 10) = Overstocked \<and>
   isDouble (2 * 2 powi (- 1074)) \<and> isDouble (3 * 2 powi (- 1074)) \<and>
   categorizeStock (Fin (2 * 2 powi (- 1074))) (Fin (3 * 2 powi (- 1074))) = Low"
proof -
  have d: "isDouble 0" "isDouble 3" "isDouble 5" "isDouble 10" "isDouble 20" "isDouble (0.5 * 10)"
    by simp_all
  have m: "isDouble (- 5)"
    using roundDouble_neg [of "- 5"] roundDouble_pos [of 5] by (simp add: isDouble_def split: if_splits)
  have s: "isDouble (2 * 2 powi (- 1074))" "isDouble (3 * 2 powi (- 1074))"
    using isDouble_dyadic [of 2 "- 1074"] isDouble_dyadic [of 3 "- 1074"] by simp_all
  have u: "(0::rat) < 2 powi (- 1074)" by simp
  have o: "(0::rat) < 3 * 2 powi (- 1074)" "0.5 * (3 * 2 powi (- 1074)) \<le> 2 * (2::rat) powi (- 1074)"
    "2 * 2 powi (- 1074) < 3 * (2::rat) powi (- 1074)"
    using u by simp_all
  have low: "categorizeStock (Fin (2 * 2 powi (- 1074))) (Fin (3 * 2 powi (- 1074))) = Low"
    using categorizeStock_table [OF s] o by blast
  show ?thesis
    using categorizeStock_table [of 0 "- 5"] categorizeStock_table [of 3 10]
      categorizeStock_table [of 5 10] categorizeStock_table [of 10 10]
      categorizeStock_table [of 20 10] d m s low
    by simp
qed

text \<open>
  The claim C7 reads: for every total and reorder point, critical when the total is below
  half of the reorder point. The smallest positive double \<open>2\<^sup>-\<^sup>1\<^sup>0\<^sup>7\<^sup>4\<close> is a reorder
  point whose half is rounded to 0: the total 0 is below half of it, and it is categorized
  as low.
\<close>

theorem categorizeStock_underflow_counterexample:
  "isDouble 0 \<and> isDouble (2 powi (- 1074)) \<and> (0::rat) < 2 powi (- 1074) \<and>
   (0::rat) < 0.5 * 2 powi (- 1074) \<and>
   categorizeStock (Fin 0) (Fin (2 powi (- 1074))) = Low"
proof -
  have d: "isDouble (2 powi (- 1074))"
    using isDouble_dyadic [of 1 "- 1074"] by simp
  have h: "jsMul (Fin 0.5) (Fin (2 powi (- 1074))) = Fin 0"
    using roundDouble_half_min_subnormal by simp
  have "categorizeStock (Fin 0) (Fin (2 powi (- 1074))) = Low"
    unfolding categorizeStock_def Let_def orZero.simps h by simp
  then show ?thesis using d by simp
qed

lemma jsSub_Fin: "jsSub (Fin a) (Fin b) = roundDouble (a - b)"
  by (simp add: jsSub_def)






section \<open>Properties of the stock transfer\<close>

subsection \<open>Lookups and totals\<close>

lemma findIndex_SomeD:
  "findIndex P xs = Some i \<Longrightarrow> i < length xs \<and> P (xs ! i)"
  by (induction xs arbitrary: i) (auto split: if_splits)

lemma findIndex_None_iff:
  "findIndex P xs = None \<longleftrightarrow> (\<forall>x\<in>set xs. \<not> P x)"
  by (induction xs) auto

lemma validateRequest_InrD:
  "validateRequest req = Inr (pid, fromId, toId, qty) \<Longrightarrow>
     r_productId req = Fin pid \<and> r_fromWarehouseId req = Fin fromId \<and>
     r_toWarehouseId req = Fin toId \<and> r_quantity req = Fin qty \<and> fromId \<noteq> toId \<and> 0 < qty"
  by (auto simp: validateRequest_def split: jsnum.splits if_splits)

lemma savedLine_parsedLine [simp]: "savedLine (parsedLine s) = s"
  by (simp add: savedLine_def parsedLine_def)

lemma savedLine_update [simp]:
  "savedLine ((parsedLine s)\<lparr>s_quantity := q\<rparr>) = s\<lparr>s_quantity := storedQuantity q\<rparr>"
  by (simp add: savedLine_def parsedLine_def)

lemma quantity_parsedLine [simp]: "s_quantity (parsedLine s) = Fin (s_quantity s)"
  by (simp add: parsedLine_def)

lemma map_savedLine_parsedLine [simp]: "map (savedLine \<circ> parsedLine) stk = stk"
  by (induction stk) auto

text \<open>
  The ledger that a successful transfer persists: the source line holds the rounded
  difference, the destination line the rounded sum, and a created line the quantity.
\<close>

lemma applyTransfer_InrD:
  assumes "applyTransfer clk d pid fromId toId qty = (Inr res, d')" and "fromId \<noteq> toId"
  obtains i where
    "findIndex (\<lambda>s. s_productId s = pid \<and> s_warehouseId s = fromId) (stock d) = Some i"
    "qty \<le> s_quantity (stock d ! i)"
    "stock d' =
      (let stock1 = (stock d)[i := (stock d ! i)\<lparr>s_quantity :=
                       storedQuantity (roundDouble (s_quantity (stock d ! i) - qty))\<rparr>] in
       case findIndex (\<lambda>s. s_productId s = pid \<and> s_warehouseId s = toId) (stock d) of
         Some j \<Rightarrow> stock1[j := (stock d ! j)\<lparr>s_quantity :=
                       storedQuantity (roundDouble (s_quantity (stock d ! j) + qty))\<rparr>]
       | None \<Rightarrow> stock1 @ [\<lparr>s_id = dateNow clk, s_productId = pid, s_warehouseId = toId, s_quantity = qty\<rparr>])"
proof -
  let ?stk = "stock d"
  let ?src = "findIndex (\<lambda>s. s_productId s = pid \<and> s_warehouseId s = fromId) ?stk"
  let ?dst = "findIndex (\<lambda>s. s_productId s = pid \<and> s_warehouseId s = toId) ?stk"
  from assms(1) obtain i where i: "?src = Some i"
    by (auto simp: applyTransfer_def sourceQtyOf_def Let_def split: if_splits option.splits)
  from findIndex_SomeD [OF i] have il: "i < length ?stk" and iw: "s_warehouseId (?stk ! i) = fromId"
    by auto
  have sq: "sourceQtyOf ?stk pid fromId = s_quantity (?stk ! i)"
    using i by (simp add: sourceQtyOf_def)
  from assms(1) have le: "qty \<le> s_quantity (?stk ! i)"
    using i sq by (auto simp: applyTransfer_def Let_def split: if_splits)
  define line1 where "line1 = (parsedLine (?stk ! i))\<lparr>s_quantity := jsSub (Fin (s_quantity (?stk ! i))) (Fin qty)\<rparr>"
  define stock1 where "stock1 = (map parsedLine ?stk)[i := line1]"
  have s1: "map savedLine stock1 = ?stk[i := (?stk ! i)\<lparr>s_quantity :=
                       storedQuantity (roundDouble (s_quantity (?stk ! i) - qty))\<rparr>]"
    by (simp add: stock1_def line1_def map_update jsSub_Fin)
  have d': "stock d' = map savedLine (case ?dst of
       Some j \<Rightarrow> stock1[j := (stock1 ! j)\<lparr>s_quantity := jsAdd (s_quantity (stock1 ! j)) (Fin qty)\<rparr>]
     | None \<Rightarrow> stock1 @ [\<lparr>s_id = dateNow clk, s_productId = pid, s_warehouseId = toId, s_quantity = Fin qty\<rparr>])"
    using assms(1) i sq le il
    by (auto simp: applyTransfer_def Let_def stock1_def line1_def split: if_splits option.splits)
  have "stock d' =
      (let stock1 = ?stk[i := (?stk ! i)\<lparr>s_quantity :=
                       storedQuantity (roundDouble (s_quantity (?stk ! i) - qty))\<rparr>] in
       case ?dst of
         Some j \<Rightarrow> stock1[j := (?stk ! j)\<lparr>s_quantity :=
                       storedQuantity (roundDouble (s_quantity (?stk ! j) + qty))\<rparr>]
       | None \<Rightarrow> stock1 @ [\<lparr>s_id = dateNow clk, s_productId = pid, s_warehouseId = toId, s_quantity = qty\<rparr>])"
  proof (cases ?dst)
    case None
    then show ?thesis using d' s1 by (simp add: Let_def savedLine_def)
  next
    case (Some j)
    from findIndex_SomeD [OF Some] have jl: "j < length ?stk" and jw: "s_warehouseId (?stk ! j) = toId"
      by auto
    have ij: "i \<noteq> j" using iw jw assms(2) by auto
    have "stock1 ! j = parsedLine (?stk ! j)" using ij jl by (simp add: stock1_def)
    then show ?thesis using d' s1 Some by (simp add: Let_def map_update)
  qed
  then show ?thesis using i le that by blast
qed





lemmas example_defs = exampleDb_def exampleProduct_def exampleClock_def exampleRequest_def
  performStockTransfer_def validateRequest_def applyTransfer_def sourceQtyOf_def Let_def
  parsedLine_def savedLine_def jsSub_def

subsection \<open>Whole units\<close>



lemma wholeUnits_zero [simp]: "wholeUnits k 0"
  by (simp add: wholeUnits_def)











subsection \<open>Conservation\<close>





subsection \<open>Non-negativity\<close>

lemma storedQuantity_round_nonneg: "0 \<le> x \<Longrightarrow> 0 \<le> storedQuantity (roundDouble x)"
  using roundDouble_nonneg [of x] by auto

lemma applyTransfer_nonneg:
  assumes "applyTransfer clk d pid fromId toId qty = (Inr res, d')" and "fromId \<noteq> toId"
    and "0 < qty" and "\<forall>s\<in>set (stock d). 0 \<le> s_quantity s"
  shows "\<forall>s\<in>set (stock d'). 0 \<le> s_quantity s"
proof -
  let ?stk = "stock d"
  from assms(1,2) obtain i where
    i: "findIndex (\<lambda>s. s_productId s = pid \<and> s_warehouseId s = fromId) ?stk = Some i"
    and le: "qty \<le> s_quantity (?stk ! i)"
    and st: "stock d' =
      (let stock1 = ?stk[i := (?stk ! i)\<lparr>s_quantity :=
                       storedQuantity (roundDouble (s_quantity (?stk ! i) - qty))\<rparr>] in
       case findIndex (\<lambda>s. s_productId s = pid \<and> s_warehouseId s = toId) ?stk of
         Some j \<Rightarrow> stock1[j := (?stk ! j)\<lparr>s_quantity :=
                       storedQuantity (roundDouble (s_quantity (?stk ! j) + qty))\<rparr>]
       | None \<Rightarrow> stock1 @ [\<lparr>s_id = dateNow clk, s_productId = pid, s_warehouseId = toId, s_quantity = qty\<rparr>])"
    by (rule applyTransfer_InrD)
  define stock1 where "stock1 = ?stk[i := (?stk ! i)\<lparr>s_quantity :=
                       storedQuantity (roundDouble (s_quantity (?stk ! i) - qty))\<rparr>]"
  have src: "0 \<le> storedQuantity (roundDouble (s_quantity (?stk ! i) - qty))"
    using le by (intro storedQuantity_round_nonneg) simp
  have n1: "\<forall>s\<in>set stock1. 0 \<le> s_quantity s"
  proof
    fix s assume "s \<in> set stock1"
    then have "s = (?stk ! i)\<lparr>s_quantity := storedQuantity (roundDouble (s_quantity (?stk ! i) - qty))\<rparr>
        \<or> s \<in> set ?stk"
      unfolding stock1_def using set_update_subset_insert by fastforce
    then show "0 \<le> s_quantity s" using src assms(4) by auto
  qed
  show ?thesis
  proof (cases "findIndex (\<lambda>s. s_productId s = pid \<and> s_warehouseId s = toId) ?stk")
    case None
    then have "stock d' = stock1 @ [\<lparr>s_id = dateNow clk, s_productId = pid, s_warehouseId = toId, s_quantity = qty\<rparr>]"
      unfolding stock1_def using st by (simp add: Let_def)
    then show ?thesis using n1 assms(3) by auto
  next
    case (Some j)
    from findIndex_SomeD [OF Some] have jl: "j < length ?stk" by simp
    have eq: "stock d' = stock1[j := (?stk ! j)\<lparr>s_quantity :=
                       storedQuantity (roundDouble (s_quantity (?stk ! j) + qty))\<rparr>]"
      unfolding stock1_def using st Some by (simp add: Let_def)
    have "0 \<le> s_quantity (?stk ! j)" using assms(4) jl by simp
    then have dst: "0 \<le> storedQuantity (roundDouble (s_quantity (?stk ! j) + qty))"
      using assms(3) by (intro storedQuantity_round_nonneg) simp
    show ?thesis
    proof
      fix s assume "s \<in> set (stock d')"
      then have "s = (?stk ! j)\<lparr>s_quantity := storedQuantity (roundDouble (s_quantity (?stk ! j) + qty))\<rparr>
          \<or> s \<in> set stock1"
        unfolding eq using set_update_subset_insert by fastforce
      then show "0 \<le> s_quantity s" using n1 dst by auto
    qed
  qed
qed

lemma performStockTransfer_nonneg:
  "performStockTransfer clk d req = (Inr res, d') \<Longrightarrow> \<forall>s\<in>set (stock d). 0 \<le> s_quantity s
     \<Longrightarrow> \<forall>s\<in>set (stock d'). 0 \<le> s_quantity s"
  by (auto simp: performStockTransfer_def split: sum.splits prod.splits
      dest!: validateRequest_InrD dest: applyTransfer_nonneg)

text \<open>
  Claim C2. From a ledger whose quantities are all non-negative, any sequence of successful
  calls of \<open>performStockTransfer\<close> leads to a ledger whose quantities are all
  non-negative.
\<close>

theorem transfers_keep_nonnegative:
  "transfersLeadTo stk stk' \<Longrightarrow> \<forall>s\<in>set stk. 0 \<le> s_quantity s \<Longrightarrow> \<forall>s\<in>set stk'. 0 \<le> s_quantity s"
proof (induction rule: transfersLeadTo.induct)
  case (start stk)
  then show ?case by simp
next
  case (transfer stk stk1 d clk req res d' stk2)
  then show ?case using performStockTransfer_nonneg by blast
qed

theorem transfers_keep_nonnegative_witness:
  "transfersLeadTo (stock exampleDb)
     (stock (snd (performStockTransfer exampleClock exampleDb (exampleRequest 1 3 30)))) \<and>
   list_all (\<lambda>s. 0 \<le> s_quantity s) (stock exampleDb) \<and>
   map s_quantity (stock (snd (performStockTransfer exampleClock exampleDb (exampleRequest 1 3 30)))) = [0, 10, 30] \<and>
   list_all (\<lambda>s. 0 \<le> s_quantity s)
     (stock (snd (performStockTransfer exampleClock exampleDb (exampleRequest 1 3 30))))"
proof -
  have "\<exists>res d'. performStockTransfer exampleClock exampleDb (exampleRequest 1 3 30) = (Inr res, d')"
    by (simp add: example_defs)
  then obtain res d' where
    run: "performStockTransfer exampleClock exampleDb (exampleRequest 1 3 30) = (Inr res, d')"
    by blast
  have lead: "transfersLeadTo (stock exampleDb)
     (stock (snd (performStockTransfer exampleClock exampleDb (exampleRequest 1 3 30))))"
    by (rule transfersLeadTo.transfer [OF transfersLeadTo.start refl run]) (simp add: run)
  have nn: "\<forall>s\<in>set (stock exampleDb). 0 \<le> s_quantity s"
    by (simp add: exampleDb_def)
  have "map s_quantity (stock (snd (performStockTransfer exampleClock exampleDb (exampleRequest 1 3 30)))) = [0, 10, 30]"
    by (simp add: example_defs)
  then show ?thesis
    using lead nn transfers_keep_nonnegative [OF lead nn] by (simp add: list_all_iff)
qed

subsection \<open>Rejection\<close>

text \<open>
  Claim C3. A request whose quantity is at most zero (\<open>-Infinity\<close> included), or whose two
  warehouses are the same, or whose quantity exceeds the quantity available at the source
  (\<open>Infinity\<close> exceeds every quantity), fails with an error, and the persisted collections
  (the stock ledger and the transfer log among them) are after the call what they were
  before it. So does every request with a field that is not a finite number.
\<close>

theorem rejected_transfer_changes_nothing:
  assumes "jsLe (r_quantity req) (Fin 0)
     \<or> r_fromWarehouseId req = r_toWarehouseId req
     \<or> r_quantity req = PosInfinity
     \<or> (\<exists>p f. r_productId req = Fin p \<and> r_fromWarehouseId req = Fin f
           \<and> jsLt (Fin (sourceQtyOf (stock d) p f)) (r_quantity req))
     \<or> \<not> (isFinite (r_productId req) \<and> isFinite (r_fromWarehouseId req)
           \<and> isFinite (r_toWarehouseId req) \<and> isFinite (r_quantity req))"
  shows "\<exists>e. performStockTransfer clk d req = (Inl e, d)"
proof (cases "validateRequest req")
  case (Inl e)
  then show ?thesis by (simp add: performStockTransfer_def)
next
  case (Inr v)
  obtain pid fromId toId qty where v: "v = (pid, fromId, toId, qty)" by (cases v) auto
  from validateRequest_InrD [OF Inr [unfolded v]] assms
  have "sourceQtyOf (stock d) pid fromId < qty" by auto
  then have "\<exists>e. applyTransfer clk d pid fromId toId qty = (Inl e, d)"
    by (simp add: applyTransfer_def Let_def)
  then show ?thesis using Inr v by (simp add: performStockTransfer_def)
qed

theorem rejected_transfer_changes_nothing_witness:
  "sourceQtyOf (stock exampleDb) 1 1 < 50 \<and>
   performStockTransfer exampleClock exampleDb (exampleRequest 1 2 50) = (Inl InsufficientStock, exampleDb) \<and>
   performStockTransfer exampleClock exampleDb (exampleRequest 1 2 0) = (Inl InvalidQuantity, exampleDb) \<and>
   performStockTransfer exampleClock exampleDb (exampleRequest 2 2 5) = (Inl SameWarehouse, exampleDb) \<and>
   performStockTransfer exampleClock exampleDb ((exampleRequest 1 2 5)\<lparr>r_quantity := PosInfinity\<rparr>)
     = (Inl InvalidQuantity, exampleDb) \<and>
   performStockTransfer exampleClock exampleDb ((exampleRequest 1 2 5)\<lparr>r_quantity := NegInfinity\<rparr>)
     = (Inl InvalidQuantity, exampleDb) \<and>
   performStockTransfer exampleClock exampleDb ((exampleRequest 1 2 5)\<lparr>r_fromWarehouseId := NaN\<rparr>)
     = (Inl InvalidWarehouseId, exampleDb)"
proof -
  have a: "sourceQtyOf (stock exampleDb) 1 1 < 50"
    by (simp add: example_defs)
  have r: "r_productId (exampleRequest 1 2 50) = Fin 1 \<and> r_fromWarehouseId (exampleRequest 1 2 50) = Fin 1
      \<and> r_quantity (exampleRequest 1 2 50) = Fin 50"
    by (simp add: exampleRequest_def)
  have "\<exists>e. performStockTransfer exampleClock exampleDb (exampleRequest 1 2 50) = (Inl e, exampleDb)"
    using rejected_transfer_changes_nothing [of "exampleRequest 1 2 50" exampleDb exampleClock] a r by auto
  moreover have "\<exists>e. performStockTransfer exampleClock exampleDb (exampleRequest 1 2 0) = (Inl e, exampleDb)"
    using rejected_transfer_changes_nothing [of "exampleRequest 1 2 0" exampleDb exampleClock]
    by (simp add: exampleRequest_def)
  moreover have "\<exists>e. performStockTransfer exampleClock exampleDb (exampleRequest 2 2 5) = (Inl e, exampleDb)"
    using rejected_transfer_changes_nothing [of "exampleRequest 2 2 5" exampleDb exampleClock]
    by (simp add: exampleRequest_def)
  moreover have "\<exists>e. performStockTransfer exampleClock exampleDb ((exampleRequest 1 2 5)\<lparr>r_quantity := PosInfinity\<rparr>)
      = (Inl e, exampleDb)"
    using rejected_transfer_changes_nothing [of "(exampleRequest 1 2 5)\<lparr>r_quantity := PosInfinity\<rparr>" exampleDb exampleClock]
    by (simp add: exampleRequest_def)
  moreover have "\<exists>e. performStockTransfer exampleClock exampleDb ((exampleRequest 1 2 5)\<lparr>r_quantity := NegInfinity\<rparr>)
      = (Inl e, exampleDb)"
    using rejected_transfer_changes_nothing [of "(exampleRequest 1 2 5)\<lparr>r_quantity := NegInfinity\<rparr>" exampleDb exampleClock]
    by (simp add: exampleRequest_def)
  moreover have "\<exists>e. performStockTransfer exampleClock exampleDb ((exampleRequest 1 2 5)\<lparr>r_fromWarehouseId := NaN\<rparr>)
      = (Inl e, exampleDb)"
    using rejected_transfer_changes_nothing [of "(exampleRequest 1 2 5)\<lparr>r_fromWarehouseId := NaN\<rparr>" exampleDb exampleClock]
    by (simp add: exampleRequest_def)
  moreover have "fst (performStockTransfer exampleClock exampleDb (exampleRequest 1 2 50)) = Inl InsufficientStock"
    "fst (performStockTransfer exampleClock exampleDb (exampleRequest 1 2 0)) = Inl InvalidQuantity"
    "fst (performStockTransfer exampleClock exampleDb (exampleRequest 2 2 5)) = Inl SameWarehouse"
    "fst (performStockTransfer exampleClock exampleDb ((exampleRequest 1 2 5)\<lparr>r_quantity := PosInfinity\<rparr>)) = Inl InvalidQuantity"
    "fst (performStockTransfer exampleClock exampleDb ((exampleRequest 1 2 5)\<lparr>r_quantity := NegInfinity\<rparr>)) = Inl InvalidQuantity"
    "fst (performStockTransfer exampleClock exampleDb ((exampleRequest 1 2 5)\<lparr>r_fromWarehouseId := NaN\<rparr>)) = Inl InvalidWarehouseId"
    by (simp_all add: example_defs)
  ultimately show ?thesis using a by auto
qed

subsection \<open>Order of the checks\<close>

text \<open>
  The claim C4 reads: the checks run in the order "identifiers, distinct warehouses,
  quantity, product, warehouses, source line exists, enough stock", so that a request
  passing the first five whose source line is absent fails with the missing-source-record
  error. In the small ledger the product has no line at warehouse 3; a transfer of 5 units
  from there passes the first five checks and fails with the insufficient-stock error.
\<close>

theorem absent_source_line_counterexample:
  "validateRequest (exampleRequest 3 2 5) = Inr (1, 3, 2, 5) \<and>
   List.find (\<lambda>p. p_id p = 1) (products exampleDb) = Some exampleProduct \<and>
   List.find (\<lambda>w. w_id w = 3) (warehouses exampleDb) = Some \<lparr>w_id = 3, w_name = ''W3''\<rparr> \<and>
   List.find (\<lambda>w. w_id w = 2) (warehouses exampleDb) = Some \<lparr>w_id = 2, w_name = ''W2''\<rparr> \<and>
   findIndex (\<lambda>s. s_productId s = 1 \<and> s_warehouseId s = 3) (stock exampleDb) = None \<and>
   performStockTransfer exampleClock exampleDb (exampleRequest 3 2 5) = (Inl InsufficientStock, exampleDb) \<and>
   fst (performStockTransfer exampleClock exampleDb (exampleRequest 3 2 5)) \<noteq> Inl SourceStockRecordNotFound"
  by (simp add: example_defs)

lemma applyTransfer_never_missing_source:
  "0 < qty \<Longrightarrow> fst (applyTransfer clk d pid fromId toId qty) \<noteq> Inl SourceStockRecordNotFound"
  by (auto simp: applyTransfer_def sourceQtyOf_def Let_def split: option.splits)

lemma validateRequest_not_missing_source:
  "validateRequest req \<noteq> Inl SourceStockRecordNotFound"
  by (auto simp: validateRequest_def split: jsnum.splits)

lemma performStockTransfer_never_missing_source:
  "fst (performStockTransfer clk d req) \<noteq> Inl SourceStockRecordNotFound"
proof (cases "validateRequest req")
  case (Inl e)
  then show ?thesis using validateRequest_not_missing_source [of req]
    by (auto simp: performStockTransfer_def)
next
  case (Inr v)
  obtain pid fromId toId qty where v: "v = (pid, fromId, toId, qty)" by (cases v) auto
  from validateRequest_InrD [OF Inr [unfolded v]] have "0 < qty" by simp
  then show ?thesis using Inr v applyTransfer_never_missing_source [of qty clk d pid fromId toId]
    by (simp add: performStockTransfer_def)
qed

lemma validateRequest_order:
  "(\<not> isFinite (r_productId req) \<longrightarrow> validateRequest req = Inl InvalidProductId) \<and>
   (isFinite (r_productId req) \<and> (\<not> isFinite (r_fromWarehouseId req) \<or> \<not> isFinite (r_toWarehouseId req))
      \<longrightarrow> validateRequest req = Inl InvalidWarehouseId) \<and>
   (isFinite (r_productId req) \<and> isFinite (r_fromWarehouseId req) \<and> isFinite (r_toWarehouseId req)
      \<and> r_fromWarehouseId req = r_toWarehouseId req \<longrightarrow> validateRequest req = Inl SameWarehouse) \<and>
   (isFinite (r_productId req) \<and> isFinite (r_fromWarehouseId req) \<and> isFinite (r_toWarehouseId req)
      \<and> r_fromWarehouseId req \<noteq> r_toWarehouseId req
      \<and> (\<not> isFinite (r_quantity req) \<or> (\<exists>q. r_quantity req = Fin q \<and> q \<le> 0))
      \<longrightarrow> validateRequest req = Inl InvalidQuantity)"
  by (auto simp: validateRequest_def split: jsnum.splits)

lemma validateRequest_Inr:
  "fromId \<noteq> toId \<Longrightarrow> 0 < qty \<Longrightarrow>
   validateRequest \<lparr>r_productId = Fin pid, r_fromWarehouseId = Fin fromId,
      r_toWarehouseId = Fin toId, r_quantity = Fin qty\<rparr> = Inr (pid, fromId, toId, qty)"
  by (simp add: validateRequest_def)

text \<open>
  Claim C4, as amended. The checks run in the order of the source: product id not finite;
  a warehouse id not finite; equal warehouses; quantity not finite or not positive;
  product, source warehouse, destination warehouse not in the catalog; available quantity
  at the source (zero when the line is absent) below the requested quantity; and only then
  the existence of the source line. Each failure returns its own error and changes
  nothing. A request that passes the first five checks and has no source line therefore
  fails with the insufficient-stock error, and no call ever returns the
  missing-source-record error.
\<close>

theorem transfer_validation_order:
  fixes req :: transfer_request and d :: db and clk :: clock
  shows
  "(\<not> isFinite (r_productId req) \<longrightarrow> performStockTransfer clk d req = (Inl InvalidProductId, d)) \<and>
   (isFinite (r_productId req) \<and> (\<not> isFinite (r_fromWarehouseId req) \<or> \<not> isFinite (r_toWarehouseId req))
      \<longrightarrow> performStockTransfer clk d req = (Inl InvalidWarehouseId, d)) \<and>
   (isFinite (r_productId req) \<and> isFinite (r_fromWarehouseId req) \<and> isFinite (r_toWarehouseId req)
      \<and> r_fromWarehouseId req = r_toWarehouseId req
      \<longrightarrow> performStockTransfer clk d req = (Inl SameWarehouse, d)) \<and>
   (isFinite (r_productId req) \<and> isFinite (r_fromWarehouseId req) \<and> isFinite (r_toWarehouseId req)
      \<and> r_fromWarehouseId req \<noteq> r_toWarehouseId req
      \<and> (\<not> isFinite (r_quantity req) \<or> (\<exists>q. r_quantity req = Fin q \<and> q \<le> 0))
      \<longrightarrow> performStockTransfer clk d req = (Inl InvalidQuantity, d)) \<and>
   (validateRequest req = Inr (pid, fromId, toId, qty) \<longrightarrow>
      ((\<forall>p\<in>set (products d). p_id p \<noteq> pid)
         \<longrightarrow> performStockTransfer clk d req = (Inl ProductNotFound, d)) \<and>
      ((\<exists>p\<in>set (products d). p_id p = pid) \<and> (\<forall>w\<in>set (warehouses d). w_id w \<noteq> fromId)
         \<longrightarrow> performStockTransfer clk d req = (Inl SourceWarehouseNotFound, d)) \<and>
      ((\<exists>p\<in>set (products d). p_id p = pid) \<and> (\<exists>w\<in>set (warehouses d). w_id w = fromId)
         \<and> (\<forall>w\<in>set (warehouses d). w_id w \<noteq> toId)
         \<longrightarrow> performStockTransfer clk d req = (Inl DestinationWarehouseNotFound, d)) \<and>
      ((\<exists>p\<in>set (products d). p_id p = pid) \<and> (\<exists>w\<in>set (warehouses d). w_id w = fromId)
         \<and> (\<exists>w\<in>set (warehouses d). w_id w = toId)
         \<and> (\<forall>s\<in>set (stock d). \<not> (s_productId s = pid \<and> s_warehouseId s = fromId))
         \<longrightarrow> performStockTransfer clk d req = (Inl InsufficientStock, d)) \<and>
      ((\<exists>p\<in>set (products d). p_id p = pid) \<and> (\<exists>w\<in>set (warehouses d). w_id w = fromId)
         \<and> (\<exists>w\<in>set (warehouses d). w_id w = toId) \<and> sourceQtyOf (stock d) pid fromId < qty
         \<longrightarrow> performStockTransfer clk d req = (Inl InsufficientStock, d))) \<and>
   fst (performStockTransfer clk d req) \<noteq> Inl SourceStockRecordNotFound"
proof -
  let ?run = "performStockTransfer clk d req"
  have c1: "\<not> isFinite (r_productId req) \<longrightarrow> ?run = (Inl InvalidProductId, d)"
    using validateRequest_order [of req] by (simp add: performStockTransfer_def)
  have c2: "isFinite (r_productId req) \<and> (\<not> isFinite (r_fromWarehouseId req) \<or> \<not> isFinite (r_toWarehouseId req))
      \<longrightarrow> ?run = (Inl InvalidWarehouseId, d)"
    using validateRequest_order [of req] by (simp add: performStockTransfer_def)
  have c3: "isFinite (r_productId req) \<and> isFinite (r_fromWarehouseId req) \<and> isFinite (r_toWarehouseId req)
      \<and> r_fromWarehouseId req = r_toWarehouseId req \<longrightarrow> ?run = (Inl SameWarehouse, d)"
    using validateRequest_order [of req] by (simp add: performStockTransfer_def)
  have c4: "isFinite (r_productId req) \<and> isFinite (r_fromWarehouseId req) \<and> isFinite (r_toWarehouseId req)
      \<and> r_fromWarehouseId req \<noteq> r_toWarehouseId req
      \<and> (\<not> isFinite (r_quantity req) \<or> (\<exists>q. r_quantity req = Fin q \<and> q \<le> 0))
      \<longrightarrow> ?run = (Inl InvalidQuantity, d)"
    using validateRequest_order [of req] by (simp add: performStockTransfer_def)
  have c5: "validateRequest req = Inr (pid, fromId, toId, qty) \<longrightarrow>
      ((\<forall>p\<in>set (products d). p_id p \<noteq> pid) \<longrightarrow> ?run = (Inl ProductNotFound, d)) \<and>
      ((\<exists>p\<in>set (products d). p_id p = pid) \<and> (\<forall>w\<in>set (warehouses d). w_id w \<noteq> fromId)
         \<longrightarrow> ?run = (Inl SourceWarehouseNotFound, d)) \<and>
      ((\<exists>p\<in>set (products d). p_id p = pid) \<and> (\<exists>w\<in>set (warehouses d). w_id w = fromId)
         \<and> (\<forall>w\<in>set (warehouses d). w_id w \<noteq> toId)
         \<longrightarrow> ?run = (Inl DestinationWarehouseNotFound, d)) \<and>
      ((\<exists>p\<in>set (products d). p_id p = pid) \<and> (\<exists>w\<in>set (warehouses d). w_id w = fromId)
         \<and> (\<exists>w\<in>set (warehouses d). w_id w = toId)
         \<and> (\<forall>s\<in>set (stock d). \<not> (s_productId s = pid \<and> s_warehouseId s = fromId))
         \<longrightarrow> ?run = (Inl InsufficientStock, d)) \<and>
      ((\<exists>p\<in>set (products d). p_id p = pid) \<and> (\<exists>w\<in>set (warehouses d). w_id w = fromId)
         \<and> (\<exists>w\<in>set (warehouses d). w_id w = toId) \<and> sourceQtyOf (stock d) pid fromId < qty
         \<longrightarrow> ?run = (Inl InsufficientStock, d))"
  proof (intro impI conjI)
    assume v: "validateRequest req = Inr (pid, fromId, toId, qty)"
    assume "\<forall>p\<in>set (products d). p_id p \<noteq> pid"
    then show "?run = (Inl ProductNotFound, d)"
      using v by (auto simp: performStockTransfer_def applyTransfer_def find_None_iff)
  next
    assume v: "validateRequest req = Inr (pid, fromId, toId, qty)"
    assume "(\<exists>p\<in>set (products d). p_id p = pid) \<and> (\<forall>w\<in>set (warehouses d). w_id w \<noteq> fromId)"
    then show "?run = (Inl SourceWarehouseNotFound, d)"
      using v by (auto simp: performStockTransfer_def applyTransfer_def find_None_iff)
  next
    assume v: "validateRequest req = Inr (pid, fromId, toId, qty)"
    assume "(\<exists>p\<in>set (products d). p_id p = pid) \<and> (\<exists>w\<in>set (warehouses d). w_id w = fromId)
         \<and> (\<forall>w\<in>set (warehouses d). w_id w \<noteq> toId)"
    then show "?run = (Inl DestinationWarehouseNotFound, d)"
      using v by (auto simp: performStockTransfer_def applyTransfer_def find_None_iff)
  next
    assume v: "validateRequest req = Inr (pid, fromId, toId, qty)"
    assume a: "(\<exists>p\<in>set (products d). p_id p = pid) \<and> (\<exists>w\<in>set (warehouses d). w_id w = fromId)
         \<and> (\<exists>w\<in>set (warehouses d). w_id w = toId)
         \<and> (\<forall>s\<in>set (stock d). \<not> (s_productId s = pid \<and> s_warehouseId s = fromId))"
    then have "findIndex (\<lambda>s. s_productId s = pid \<and> s_warehouseId s = fromId) (stock d) = None"
      by (simp add: findIndex_None_iff)
    then have "sourceQtyOf (stock d) pid fromId = 0" by (simp add: sourceQtyOf_def)
    moreover have "0 < qty" using validateRequest_InrD [OF v] by simp
    ultimately show "?run = (Inl InsufficientStock, d)"
      using v a by (auto simp: performStockTransfer_def applyTransfer_def find_None_iff Let_def)
  next
    assume v: "validateRequest req = Inr (pid, fromId, toId, qty)"
    assume a: "(\<exists>p\<in>set (products d). p_id p = pid) \<and> (\<exists>w\<in>set (warehouses d). w_id w = fromId)
         \<and> (\<exists>w\<in>set (warehouses d). w_id w = toId) \<and> sourceQtyOf (stock d) pid fromId < qty"
    then show "?run = (Inl InsufficientStock, d)"
      using v by (auto simp: performStockTransfer_def applyTransfer_def find_None_iff Let_def)
  qed
  have c6: "fst ?run \<noteq> Inl SourceStockRecordNotFound"
    by (rule performStockTransfer_never_missing_source)
  show ?thesis
    by (intro conjI c1 c2 c3 c4 c5 c6)
qed

theorem transfer_validation_order_witness:
  "validateRequest (exampleRequest 3 2 5) = Inr (1, 3, 2, 5) \<and>
   list_ex (\<lambda>p. p_id p = 1) (products exampleDb) \<and>
   list_ex (\<lambda>w. w_id w = 3) (warehouses exampleDb) \<and>
   list_ex (\<lambda>w. w_id w = 2) (warehouses exampleDb) \<and>
   list_all (\<lambda>s. \<not> (s_productId s = 1 \<and> s_warehouseId s = 3)) (stock exampleDb) \<and>
   performStockTransfer exampleClock exampleDb (exampleRequest 3 2 5) = (Inl InsufficientStock, exampleDb)"
proof -
  have v: "validateRequest (exampleRequest 3 2 5) = Inr (1, 3, 2, 5)"
    by (simp add: example_defs)
  have a: "(\<exists>p\<in>set (products exampleDb). p_id p = 1) \<and> (\<exists>w\<in>set (warehouses exampleDb). w_id w = 3)
         \<and> (\<exists>w\<in>set (warehouses exampleDb). w_id w = 2)
         \<and> (\<forall>s\<in>set (stock exampleDb). \<not> (s_productId s = 1 \<and> s_warehouseId s = 3))"
    by (simp add: example_defs)
  from transfer_validation_order [of "exampleRequest 3 2 5" exampleClock exampleDb 1 3 2 5] v a
  have "performStockTransfer exampleClock exampleDb (exampleRequest 3 2 5) = (Inl InsufficientStock, exampleDb)"
    by blast
  then show ?thesis using v a by (simp add: list_all_iff list_ex_iff)
qed

section \<open>Properties of the alert workflow\<close>

lemma findIndex_first:
  "findIndex P xs = Some i \<Longrightarrow> j < i \<Longrightarrow> \<not> P (xs ! j)"
proof (induction xs arbitrary: i j)
  case Nil
  then show ?case by simp
next
  case (Cons x xs)
  then show ?case by (cases j) (auto split: if_splits)
qed

lemma findIndex_Some_ex:
  "\<exists>x\<in>set xs. P x \<Longrightarrow> \<exists>i. findIndex P xs = Some i"
  using findIndex_None_iff [of P xs] by (cases "findIndex P xs") auto

text \<open>
  Claim C9. For an id that some alert carries and a status among NEW, ACKNOWLEDGED, ORDERED
  and RESOLVED, \<open>updateAlertStatus\<close> succeeds. It changes the first alert with that id
  and no other: the workflow status becomes the given one, \<open>updatedAt\<close> the time of the
  call, and the comment the given one when it is a non-empty string; an absent (or empty)
  comment leaves the previous comment. Every other field of that alert and every other
  alert of the collection stay as they were.
\<close>

theorem updateAlertStatus_frame:
  assumes "\<exists>a\<in>set alerts0. a_id a = ident"
    and "workflowStatus \<in> {''NEW'', ''ACKNOWLEDGED'', ''ORDERED'', ''RESOLVED''}"
  shows "\<exists>i<length alerts0. a_id (alerts0 ! i) = ident \<and> (\<forall>j<i. a_id (alerts0 ! j) \<noteq> ident) \<and>
     updateAlertStatus now alerts0 ident workflowStatus comment =
       (Inr ((alerts0 ! i)\<lparr>a_workflowStatus := workflowStatus, a_updatedAt := now,
               a_comment := (if comment = None \<or> comment = Some [] then a_comment (alerts0 ! i) else comment)\<rparr>),
        alerts0[i := (alerts0 ! i)\<lparr>a_workflowStatus := workflowStatus, a_updatedAt := now,
               a_comment := (if comment = None \<or> comment = Some [] then a_comment (alerts0 ! i) else comment)\<rparr>])"
proof -
  from assms(1) obtain i where i: "findIndex (\<lambda>a. a_id a = ident) alerts0 = Some i"
    using findIndex_Some_ex [of alerts0 "\<lambda>a. a_id a = ident"] by blast
  have v: "workflowStatus \<in> set valid" using assms(2) by (simp add: valid_def)
  have il: "i < length alerts0" and ii: "a_id (alerts0 ! i) = ident"
    using findIndex_SomeD [OF i] by auto
  have first: "\<forall>j<i. a_id (alerts0 ! j) \<noteq> ident"
    using findIndex_first [OF i] by blast
  have "updateAlertStatus now alerts0 ident workflowStatus comment =
       (Inr ((alerts0 ! i)\<lparr>a_workflowStatus := workflowStatus, a_updatedAt := now,
               a_comment := (if comment = None \<or> comment = Some [] then a_comment (alerts0 ! i) else comment)\<rparr>),
        alerts0[i := (alerts0 ! i)\<lparr>a_workflowStatus := workflowStatus, a_updatedAt := now,
               a_comment := (if comment = None \<or> comment = Some [] then a_comment (alerts0 ! i) else comment)\<rparr>])"
    using i v by (cases comment) (auto simp: updateAlertStatus_def truthy_def Let_def)
  then show ?thesis using il ii first by blast
qed

theorem updateAlertStatus_frame_witness:
  "list_ex (\<lambda>a. a_id a = ''A-2'') [exampleAlert ''A-1'' 1 ''NEW'', exampleAlert ''A-2'' 2 ''NEW''] \<and>
   updateAlertStatus ''2023-11-15T08:00:00.000Z''
       [exampleAlert ''A-1'' 1 ''NEW'', exampleAlert ''A-2'' 2 ''NEW''] ''A-2'' ''ORDERED'' None =
     (Inr ((exampleAlert ''A-2'' 2 ''ORDERED'')\<lparr>a_updatedAt := ''2023-11-15T08:00:00.000Z''\<rparr>),
      [exampleAlert ''A-1'' 1 ''NEW'',
       (exampleAlert ''A-2'' 2 ''ORDERED'')\<lparr>a_updatedAt := ''2023-11-15T08:00:00.000Z''\<rparr>])"
proof -
  let ?as = "[exampleAlert ''A-1'' 1 ''NEW'', exampleAlert ''A-2'' 2 ''NEW'']"
  have ex: "\<exists>a\<in>set ?as. a_id a = ''A-2''" by (simp add: exampleAlert_def)
  have st: "''ORDERED'' \<in> {''NEW'', ''ACKNOWLEDGED'', ''ORDERED'', ''RESOLVED''}" by simp
  from updateAlertStatus_frame [OF ex st, of "''2023-11-15T08:00:00.000Z''" None]
  obtain i where i: "i < length ?as" "a_id (?as ! i) = ''A-2''"
    and run: "updateAlertStatus ''2023-11-15T08:00:00.000Z'' ?as ''A-2'' ''ORDERED'' None =
       (Inr ((?as ! i)\<lparr>a_workflowStatus := ''ORDERED'', a_updatedAt := ''2023-11-15T08:00:00.000Z'',
               a_comment := a_comment (?as ! i)\<rparr>),
        ?as[i := (?as ! i)\<lparr>a_workflowStatus := ''ORDERED'', a_updatedAt := ''2023-11-15T08:00:00.000Z'',
               a_comment := a_comment (?as ! i)\<rparr>])"
    by auto
  from i have "i = 1" by (cases i) (auto simp: exampleAlert_def)
  with run show ?thesis using ex by (simp add: exampleAlert_def list_ex_iff)
qed

section \<open>Properties of the reconciliation\<close>

subsection \<open>The store and the list of alerts\<close>

text \<open>
  Each pass of the loop keeps \<open>storeInv\<close> and acts on the array as \<open>reconcileList\<close>
  acts on the list, so \<open>generateAlerts\<close> is the fold of \<open>reconcileList\<close> over the
  products.
\<close>

lemma lastRef_None_iff:
  "lastRef P h rs = None \<longleftrightarrow> (\<forall>r\<in>set rs. \<not> P (h ! r))"
  by (induction rs) (auto split: option.splits)

lemma lastRef_SomeD:
  "lastRef P h rs = Some r \<Longrightarrow> r \<in> set rs \<and> P (h ! r)"
  by (induction rs) (auto split: option.splits if_splits)

lemma lastRef_append:
  "lastRef P h (rs @ [r]) = (if P (h ! r) then Some r else lastRef P h rs)"
  by (induction rs) (auto split: option.splits)

lemma lastRef_cong:
  "\<forall>r\<in>set rs. P (h' ! r) = P (h ! r) \<Longrightarrow> lastRef P h' rs = lastRef P h rs"
  by (induction rs) (auto split: option.splits)

lemma initial_map_lastRef:
  "foldl (\<lambda>m i. m(a_productId (h ! i) \<mapsto> i)) Map.empty [0..<n] pid =
     lastRef (\<lambda>a. a_productId a = pid) h [0..<n]"
  by (induction n) (auto simp: lastRef_append)

lemma storeInv_initialStore: "storeInv (initialStore existingAlerts)"
  by (simp add: storeInv_def initialStore_def initial_map_lastRef list_all_iff)

lemma alertsOf_initialStore: "alertsOf (initialStore existingAlerts) = existingAlerts"
  by (simp add: alertsOf_def initialStore_def map_nth)

lemma list_ex_lastRef:
  "list_ex P (map (\<lambda>r. h ! r) rs) \<longleftrightarrow> lastRef P h rs \<noteq> None"
  by (simp add: lastRef_None_iff list_ex_iff)

lemma map_nth_update_other:
  "r \<notin> set rs \<Longrightarrow> map (\<lambda>u. h[r := x] ! u) rs = map (\<lambda>u. h ! u) rs"
  by (induction rs) auto

lemma view_update_last:
  "distinct rs \<Longrightarrow> \<forall>u\<in>set rs. u < length h \<Longrightarrow> lastRef P h rs = Some r \<Longrightarrow>
     map (\<lambda>u. h[r := f (h ! r)] ! u) rs = updLast P f (map (\<lambda>u. h ! u) rs)"
proof (induction rs)
  case Nil
  then show ?case by simp
next
  case (Cons u rs)
  show ?case
  proof (cases "lastRef P h rs")
    case None
    with Cons.prems have ur: "u = r" and pu: "P (h ! u)" by (auto split: if_splits)
    from None have "\<not> list_ex P (map (\<lambda>r. h ! r) rs)" by (simp add: list_ex_lastRef)
    moreover have "map (\<lambda>v. h[r := f (h ! r)] ! v) rs = map (\<lambda>v. h ! v) rs"
      using Cons.prems(1) ur by (intro map_nth_update_other) simp
    ultimately show ?thesis using ur pu Cons.prems(2) by simp
  next
    case (Some r')
    with Cons.prems have rr: "r' = r" by simp
    from Some have ex: "list_ex P (map (\<lambda>r. h ! r) rs)" by (simp add: list_ex_lastRef)
    from lastRef_SomeD [OF Some] rr Cons.prems(1) have "u \<noteq> r" by auto
    moreover have "map (\<lambda>u. h[r := f (h ! r)] ! u) rs = updLast P f (map (\<lambda>u. h ! u) rs)"
      using Cons.IH Cons.prems Some rr by simp
    ultimately show ?thesis using ex by simp
  qed
qed

lemma map_nth_append_old:
  "\<forall>u\<in>set rs. u < length h \<Longrightarrow> map (\<lambda>u. (h @ [x]) ! u) rs = map (\<lambda>u. h ! u) rs"
  by (induction rs) (auto simp: nth_append)

lemma storeInv_update:
  assumes "storeInv st" and "a_productId x = a_productId (heap st ! r)" and "r < length (heap st)"
  shows "storeInv (st\<lparr>heap := (heap st)[r := x]\<rparr>)"
proof -
  have "lastRef (\<lambda>a. a_productId a = pid) ((heap st)[r := x]) (updated st) =
        lastRef (\<lambda>a. a_productId a = pid) (heap st) (updated st)" for pid
    using assms(2,3) by (intro lastRef_cong) (auto simp: nth_list_update)
  then show ?thesis using assms(1) by (simp add: storeInv_def)
qed

lemma storeInv_create:
  assumes "storeInv st" and "alertByProduct st (a_productId x) = None"
  shows "storeInv (st\<lparr>heap := heap st @ [x], updated := length (heap st) # updated st,
           alertByProduct := (alertByProduct st)(a_productId x \<mapsto> length (heap st))\<rparr>)"
proof -
  from assms(1) have d: "distinct (updated st)" and b: "\<forall>r\<in>set (updated st). r < length (heap st)"
    and m: "\<And>pid. alertByProduct st pid = lastRef (\<lambda>a. a_productId a = pid) (heap st) (updated st)"
    by (auto simp: storeInv_def list_all_iff)
  have old: "lastRef (\<lambda>a. a_productId a = pid) (heap st @ [x]) (updated st) =
        lastRef (\<lambda>a. a_productId a = pid) (heap st) (updated st)" for pid
    using b by (intro lastRef_cong) (auto simp: nth_append)
  have fresh: "length (heap st) \<notin> set (updated st)" using b by auto
  have "((alertByProduct st)(a_productId x \<mapsto> length (heap st))) pid =
      lastRef (\<lambda>a. a_productId a = pid) (heap st @ [x]) (length (heap st) # updated st)" for pid
    using assms(2) m [of pid] old [of pid] by (auto split: option.splits)
  then show ?thesis using d b fresh by (auto simp: storeInv_def list_all_iff)
qed

lemma alertsOf_create:
  assumes "storeInv st"
  shows "alertsOf (st\<lparr>heap := heap st @ [x], updated := length (heap st) # updated st,
           alertByProduct := m\<rparr>) = x # alertsOf st"
proof -
  from assms have b: "\<forall>r\<in>set (updated st). r < length (heap st)"
    by (auto simp: storeInv_def list_all_iff)
  then show ?thesis by (simp add: alertsOf_def map_nth_append_old)
qed

lemma alertsOf_update:
  assumes "storeInv st" and "alertByProduct st pid = Some r"
  shows "alertsOf (st\<lparr>heap := (heap st)[r := f (heap st ! r)]\<rparr>) =
     updLast (\<lambda>a. a_productId a = pid) f (alertsOf st)"
proof -
  from assms(1) have d: "distinct (updated st)" and b: "\<forall>r\<in>set (updated st). r < length (heap st)"
    and m: "alertByProduct st pid = lastRef (\<lambda>a. a_productId a = pid) (heap st) (updated st)"
    by (auto simp: storeInv_def list_all_iff)
  from view_update_last [OF d b, of "\<lambda>a. a_productId a = pid" r f] m assms(2)
  show ?thesis by (simp add: alertsOf_def)
qed

lemma storeInv_mapped:
  assumes "storeInv st" and "alertByProduct st pid = Some r"
  shows "r < length (heap st) \<and> a_productId (heap st ! r) = pid \<and> r \<in> set (updated st)"
proof -
  from assms have "lastRef (\<lambda>a. a_productId a = pid) (heap st) (updated st) = Some r"
    by (simp add: storeInv_def)
  from lastRef_SomeD [OF this] assms(1) show ?thesis by (auto simp: storeInv_def list_all_iff)
qed

lemma storeInv_list_ex:
  assumes "storeInv st"
  shows "list_ex (\<lambda>a. a_productId a = pid) (alertsOf st) \<longleftrightarrow> alertByProduct st pid \<noteq> None"
  using assms by (simp add: storeInv_def alertsOf_def list_ex_lastRef)

lemma updLast_id: "\<forall>x\<in>set xs. P x \<longrightarrow> f x = x \<Longrightarrow> updLast P f xs = xs"
  by (induction xs) auto

lemma reconcileExisting_productId [simp]:
  "a_productId (reconcileExisting now stk p a) = a_productId a"
  by (simp add: reconcileExisting_def refreshAlert_def resolveAlert_def Let_def case_prod_beta)

lemma createdAlert_productId [simp]:
  "a_productId (createdAlert numStr now stk p) = p_id p"
  by (simp add: createdAlert_def newAlert_def Let_def case_prod_beta)

lemma reconcileProduct_mapped:
  assumes "alertByProduct st (p_id p) = Some r"
  shows "reconcileProduct numStr now stk st p =
     st\<lparr>heap := (heap st)[r := reconcileExisting now stk p (heap st ! r)]\<rparr>"
  using assms
  by (simp add: reconcileProduct_def reconcileExisting_def Let_def case_prod_beta)

lemma reconcileProduct_unmapped:
  assumes "alertByProduct st (p_id p) = None"
  shows "reconcileProduct numStr now stk st p =
     (if breached stk p
      then st\<lparr>heap := heap st @ [createdAlert numStr now stk p],
              updated := length (heap st) # updated st,
              alertByProduct := (alertByProduct st)(p_id p \<mapsto> length (heap st))\<rparr>
      else st)"
  using assms
  by (simp add: reconcileProduct_def createdAlert_def breached_def Let_def case_prod_beta)

lemma reconcileProduct_sim:
  assumes "storeInv st"
  shows "storeInv (reconcileProduct numStr now stk st p) \<and>
     alertsOf (reconcileProduct numStr now stk st p) = reconcileList numStr now stk (alertsOf st) p"
proof (cases "alertByProduct st (p_id p)")
  case None
  then have no: "\<not> list_ex (\<lambda>a. a_productId a = p_id p) (alertsOf st)"
    using storeInv_list_ex [OF assms] by simp
  show ?thesis
  proof (cases "breached stk p")
    case True
    have "storeInv (st\<lparr>heap := heap st @ [createdAlert numStr now stk p],
              updated := length (heap st) # updated st,
              alertByProduct := (alertByProduct st)(a_productId (createdAlert numStr now stk p) \<mapsto> length (heap st))\<rparr>)"
      using assms None by (intro storeInv_create) simp_all
    then show ?thesis
      using True None no assms
      by (simp add: reconcileProduct_unmapped reconcileList_def alertsOf_create)
  next
    case False
    then show ?thesis using None no assms
      by (simp add: reconcileProduct_unmapped reconcileList_def)
  qed
next
  case (Some r)
  then have ex: "list_ex (\<lambda>a. a_productId a = p_id p) (alertsOf st)"
    using storeInv_list_ex [OF assms] by simp
  from storeInv_mapped [OF assms Some] have r: "r < length (heap st)" by simp
  have "storeInv (st\<lparr>heap := (heap st)[r := reconcileExisting now stk p (heap st ! r)]\<rparr>)"
    using assms r by (intro storeInv_update) simp_all
  then show ?thesis
    using Some ex assms
    by (simp add: reconcileProduct_mapped reconcileList_def alertsOf_update)
qed

lemma foldl_reconcileProduct_sim:
  "storeInv st \<Longrightarrow>
     storeInv (foldl (reconcileProduct numStr now stk) st ps) \<and>
     alertsOf (foldl (reconcileProduct numStr now stk) st ps) =
       foldl (reconcileList numStr now stk) (alertsOf st) ps"
proof (induction ps arbitrary: st)
  case Nil
  then show ?case by simp
next
  case (Cons p ps)
  from reconcileProduct_sim [OF Cons.prems, of numStr now stk p] Cons.IH
  show ?case by simp
qed

lemma generateAlerts_foldl:
  "generateAlerts numStr now ps stk existingAlerts =
     foldl (reconcileList numStr now stk) existingAlerts ps"
proof -
  have "alertsOf (foldl (reconcileProduct numStr now stk) (initialStore existingAlerts) ps) =
      foldl (reconcileList numStr now stk) existingAlerts ps"
    using foldl_reconcileProduct_sim [OF storeInv_initialStore, of numStr now stk existingAlerts ps]
    by (simp add: alertsOf_initialStore)
  then show ?thesis by (simp add: generateAlerts_def alertsOf_def Let_def)
qed

lemmas alert_example_defs = generateAlerts_foldl reconcileList_def reconcileExisting_def createdAlert_def
  breached_def newAlert_def refreshAlert_def resolveAlert_def getTotalStockForProduct_def
  categorizeStock_def recommendReorder_def jsSub_def exampleDb_def exampleProduct_def exampleAlert_def
  exampleNumStr_def Let_def

lemmas store_example_defs = generateAlerts_def initialStore_def reconcileProduct_def
  newAlert_def refreshAlert_def resolveAlert_def getTotalStockForProduct_def
  categorizeStock_def recommendReorder_def jsSub_def exampleDb_def exampleProduct_def exampleAlert_def
  exampleNumStr_def Let_def

lemma example_first_pass:
  "generateAlerts exampleNumStr ''2023-11-15T08:00:00.000Z'' (products exampleDb) (stock exampleDb) [] =
     [\<lparr>a_id = ''A-2023-11-15T08:00:00.000Z-1'', a_productId = 1, a_sku = ''P-1'', a_productName = ''P'',
       a_reorderPoint = 100, a_totalStock = Fin 40, a_category = Critical, a_recommendedQty = Fin 110,
       a_note = RaiseToOneAndHalfRP (Fin 150), a_workflowStatus = ''NEW'',
       a_createdAt = ''2023-11-15T08:00:00.000Z'', a_updatedAt = ''2023-11-15T08:00:00.000Z'',
       a_comment = None\<rparr>]"
  by (simp add: alert_example_defs)

subsection \<open>One alert for a product\<close>

lemma updLast_map:
  "\<forall>x. g (f x) = g x \<Longrightarrow> map g (updLast P f xs) = map g xs"
  by (induction xs) auto

lemma updLast_length [simp]: "length (updLast P f xs) = length xs"
  by (induction xs) auto

lemma updLast_nth:
  "i < length xs \<Longrightarrow> updLast P f xs ! i = xs ! i \<or> updLast P f xs ! i = f (xs ! i)"
proof (induction xs arbitrary: i)
  case Nil
  then show ?case by simp
next
  case (Cons x xs)
  then show ?case by (cases i) auto
qed

lemma reconcileList_productIds:
  "map a_productId (reconcileList numStr now stk as p) =
     (if \<not> list_ex (\<lambda>a. a_productId a = p_id p) as \<and> breached stk p then [p_id p] else [])
       @ map a_productId as"
  by (simp add: reconcileList_def updLast_map)

lemma foldl_reconcileList_productIds:
  "\<exists>news. map a_productId (foldl (reconcileList numStr now stk) as ps) = news @ map a_productId as
     \<and> distinct news \<and> set news \<inter> a_productId ` set as = {}"
proof (induction ps arbitrary: as)
  case Nil
  then show ?case by simp
next
  case (Cons p ps)
  let ?as1 = "reconcileList numStr now stk as p"
  from Cons.IH [of ?as1] obtain news where
    n: "map a_productId (foldl (reconcileList numStr now stk) ?as1 ps) = news @ map a_productId ?as1"
    and d: "distinct news" and i: "set news \<inter> a_productId ` set ?as1 = {}"
    by blast
  show ?case
  proof (cases "\<not> list_ex (\<lambda>a. a_productId a = p_id p) as \<and> breached stk p")
    case True
    then have ids: "map a_productId ?as1 = p_id p # map a_productId as"
      by (simp add: reconcileList_productIds)
    then have s1: "a_productId ` set ?as1 = insert (p_id p) (a_productId ` set as)"
      by (metis list.simps(15) set_map)
    have "p_id p \<notin> a_productId ` set as" using True by (auto simp: list_ex_iff)
    then have "distinct (news @ [p_id p]) \<and> set (news @ [p_id p]) \<inter> a_productId ` set as = {}"
      using d i s1 by auto
    moreover have "map a_productId (foldl (reconcileList numStr now stk) as (p # ps)) =
        (news @ [p_id p]) @ map a_productId as"
      using n ids by simp
    ultimately show ?thesis by blast
  next
    case False
    then have ids: "map a_productId ?as1 = map a_productId as"
      by (simp add: reconcileList_productIds)
    then have "a_productId ` set ?as1 = a_productId ` set as"
      by (metis set_map)
    then show ?thesis using n d i ids by auto
  qed
qed

lemma generateAlerts_productIds:
  "\<exists>news. map a_productId (generateAlerts numStr now ps stk as) = news @ map a_productId as
     \<and> distinct news \<and> set news \<inter> a_productId ` set as = {}"
  by (simp add: generateAlerts_foldl foldl_reconcileList_productIds)

lemma generateAlerts_distinct:
  assumes "distinct (map a_productId as)"
  shows "distinct (map a_productId (generateAlerts numStr now ps stk as))"
proof -
  from generateAlerts_productIds [of numStr now ps stk as] obtain news where
    "map a_productId (generateAlerts numStr now ps stk as) = news @ map a_productId as"
    "distinct news" "set news \<inter> a_productId ` set as = {}"
    by blast
  then show ?thesis using assms by auto
qed

lemma updateAlertStatus_productIds:
  assumes "updateAlertStatus now as ident workflowStatus comment = (res, as')"
  shows "map a_productId as' = map a_productId as"
proof (cases "findIndex (\<lambda>a. a_id a = ident) as")
  case None
  then show ?thesis using assms by (simp add: updateAlertStatus_def)
next
  case (Some i)
  from findIndex_SomeD [OF Some] have il: "i < length as" by simp
  have "map a_productId (as[i := x]) = map a_productId as" if "a_productId x = a_productId (as ! i)" for x
    using that il by (simp add: map_update list_update_same_conv)
  then show ?thesis using assms Some
    by (auto simp: updateAlertStatus_def Let_def split: if_splits)
qed

text \<open>
  Claim C10. Every alert collection reached from the empty one by calls of
  \<open>generateAlerts\<close> and \<open>updateAlertStatus\<close> holds at most one alert for a product id.
  The reason: the product ids of the result of \<open>generateAlerts\<close> are those of the alerts
  it was given, preceded by pairwise distinct ids that none of the given alerts (of any
  workflow status) carries; and \<open>updateAlertStatus\<close> leaves the list of product ids as
  it is, so it adds and removes no alert.
\<close>

theorem one_alert_per_product:
  "(reachableAlerts as \<longrightarrow> distinct (map a_productId as)) \<and>
   (\<exists>news. map a_productId (generateAlerts numStr now ps stk as) = news @ map a_productId as
      \<and> distinct news \<and> set news \<inter> a_productId ` set as = {}) \<and>
   (updateAlertStatus now' as ident workflowStatus comment = (res, as')
      \<longrightarrow> map a_productId as' = map a_productId as)"
proof -
  have "distinct (map a_productId as)" if "reachableAlerts as"
    using that
  proof (induction rule: reachableAlerts.induct)
    case initial
    then show ?case by simp
  next
    case (generate as numStr now ps stk)
    then show ?case by (simp add: generateAlerts_distinct)
  next
    case (update as now ident workflowStatus comment res as')
    then show ?case using updateAlertStatus_productIds by metis
  qed
  then show ?thesis
    using generateAlerts_productIds [of numStr now ps stk as]
      updateAlertStatus_productIds [of now' as ident workflowStatus comment res as']
    by blast
qed

theorem one_alert_per_product_witness:
  "reachableAlerts (generateAlerts exampleNumStr ''2023-11-15T08:00:00.000Z'' (products exampleDb) (stock exampleDb) []) \<and>
   map a_productId (generateAlerts exampleNumStr ''2023-11-15T08:00:00.000Z'' (products exampleDb) (stock exampleDb) []) = [1] \<and>
   distinct (map a_productId
     (generateAlerts exampleNumStr ''2023-11-15T08:00:00.000Z'' (products exampleDb) (stock exampleDb) []))"
proof -
  let ?as = "generateAlerts exampleNumStr ''2023-11-15T08:00:00.000Z'' (products exampleDb) (stock exampleDb) []"
  have r: "reachableAlerts ?as"
    by (rule reachableAlerts.generate [OF reachableAlerts.initial])
  have "reachableAlerts ?as \<longrightarrow> distinct (map a_productId ?as)"
    using one_alert_per_product [of ?as] by blast
  with r have "distinct (map a_productId ?as)" by blast
  moreover have "map a_productId ?as = [1]" by (simp add: example_first_pass)
  ultimately show ?thesis using r by blast
qed

subsection \<open>Resolved alerts\<close>

lemma reconcileExisting_resolved [simp]:
  "a_workflowStatus a = ''RESOLVED'' \<Longrightarrow> reconcileExisting now stk p a = a"
  by (simp add: reconcileExisting_def Let_def case_prod_beta)

lemma reconcileList_keeps_resolved:
  "\<exists>news olds. reconcileList numStr now stk as p = news @ olds \<and> length olds = length as \<and>
     (\<forall>i<length as. a_workflowStatus (as ! i) = ''RESOLVED'' \<longrightarrow> olds ! i = as ! i)"
proof (cases "list_ex (\<lambda>a. a_productId a = p_id p) as")
  case True
  let ?olds = "updLast (\<lambda>a. a_productId a = p_id p) (reconcileExisting now stk p) as"
  have "\<forall>i<length as. a_workflowStatus (as ! i) = ''RESOLVED'' \<longrightarrow> ?olds ! i = as ! i"
    using updLast_nth [of _ as "\<lambda>a. a_productId a = p_id p" "reconcileExisting now stk p"]
    by (metis reconcileExisting_resolved)
  then have "reconcileList numStr now stk as p = [] @ ?olds \<and> length ?olds = length as \<and>
     (\<forall>i<length as. a_workflowStatus (as ! i) = ''RESOLVED'' \<longrightarrow> ?olds ! i = as ! i)"
    using True by (simp add: reconcileList_def)
  then show ?thesis by blast
next
  case False
  then have "reconcileList numStr now stk as p =
      (if breached stk p then [createdAlert numStr now stk p] else []) @ as"
    by (simp add: reconcileList_def)
  then show ?thesis by blast
qed

lemma foldl_reconcileList_keeps_resolved:
  "\<exists>news olds. foldl (reconcileList numStr now stk) as ps = news @ olds \<and> length olds = length as \<and>
     (\<forall>i<length as. a_workflowStatus (as ! i) = ''RESOLVED'' \<longrightarrow> olds ! i = as ! i)"
proof (induction ps arbitrary: as)
  case Nil
  have "as = [] @ as" by simp
  then show ?case by auto
next
  case (Cons p ps)
  let ?as1 = "reconcileList numStr now stk as p"
  from reconcileList_keeps_resolved [of numStr now stk as p] obtain n1 o1 where
    s1: "?as1 = n1 @ o1" "length o1 = length as"
    "\<forall>i<length as. a_workflowStatus (as ! i) = ''RESOLVED'' \<longrightarrow> o1 ! i = as ! i"
    by blast
  from Cons.IH [of ?as1] obtain n2 o2 where
    s2: "foldl (reconcileList numStr now stk) ?as1 ps = n2 @ o2" "length o2 = length ?as1"
    "\<forall>i<length ?as1. a_workflowStatus (?as1 ! i) = ''RESOLVED'' \<longrightarrow> o2 ! i = ?as1 ! i"
    by blast
  let ?k = "length n1"
  have len: "length o2 = ?k + length as" using s1 s2 by simp
  have split: "n2 @ o2 = (n2 @ take ?k o2) @ drop ?k o2" by simp
  have "\<forall>i<length as. a_workflowStatus (as ! i) = ''RESOLVED'' \<longrightarrow> drop ?k o2 ! i = as ! i"
  proof (intro allI impI)
    fix i assume i: "i < length as" and r: "a_workflowStatus (as ! i) = ''RESOLVED''"
    have a: "?as1 ! (?k + i) = as ! i" using s1 i r by (simp add: nth_append)
    have "?k + i < length ?as1" using s1 i by simp
    then have "o2 ! (?k + i) = ?as1 ! (?k + i)" using s2(3) a r by simp
    then show "drop ?k o2 ! i = as ! i" using a len i by simp
  qed
  moreover have "length (drop ?k o2) = length as" using len by simp
  ultimately show ?case using s2(1) split by (metis foldl_Cons)
qed

lemma generateAlerts_keeps_resolved:
  assumes "i < length as" and "a_workflowStatus (as ! i) = ''RESOLVED''"
  shows "length as \<le> length (generateAlerts numStr now ps stk as) \<and>
     drop (length (generateAlerts numStr now ps stk as) - length as) (generateAlerts numStr now ps stk as) ! i = as ! i"
proof -
  from foldl_reconcileList_keeps_resolved [of numStr now stk as ps] obtain news olds where
    s: "generateAlerts numStr now ps stk as = news @ olds" "length olds = length as"
    "\<forall>i<length as. a_workflowStatus (as ! i) = ''RESOLVED'' \<longrightarrow> olds ! i = as ! i"
    by (auto simp: generateAlerts_foldl)
  then show ?thesis using assms by simp
qed

lemma generateAlerts_length:
  "length as \<le> length (generateAlerts numStr now ps stk as)"
  using foldl_reconcileList_keeps_resolved [of numStr now stk as ps]
  by (auto simp: generateAlerts_foldl)

lemma updLast_filter_other:
  "\<forall>x. P x \<longrightarrow> \<not> Q x \<and> \<not> Q (f x) \<Longrightarrow> filter Q (updLast P f xs) = filter Q xs"
  by (induction xs) auto

lemma reconcileList_resolved_product:
  assumes "\<forall>a\<in>set as. a_productId a = pid \<longrightarrow> a_workflowStatus a = ''RESOLVED''"
    and "list_ex (\<lambda>a. a_productId a = pid) as"
  shows "filter (\<lambda>a. a_productId a = pid) (reconcileList numStr now stk as p) =
     filter (\<lambda>a. a_productId a = pid) as"
proof (cases "p_id p = pid")
  case True
  have "updLast (\<lambda>a. a_productId a = pid) (reconcileExisting now stk p) as = as"
    using assms(1) by (intro updLast_id) simp
  then show ?thesis using True assms(2) by (simp add: reconcileList_def)
next
  case False
  have "filter (\<lambda>a. a_productId a = pid)
      (updLast (\<lambda>a. a_productId a = p_id p) (reconcileExisting now stk p) as) =
      filter (\<lambda>a. a_productId a = pid) as"
    using False by (intro updLast_filter_other) simp
  then show ?thesis using False by (simp add: reconcileList_def)
qed

lemma foldl_reconcileList_resolved_product:
  assumes "\<forall>a\<in>set as. a_productId a = pid \<longrightarrow> a_workflowStatus a = ''RESOLVED''"
    and "list_ex (\<lambda>a. a_productId a = pid) as"
  shows "filter (\<lambda>a. a_productId a = pid) (foldl (reconcileList numStr now stk) as ps) =
     filter (\<lambda>a. a_productId a = pid) as"
  using assms
proof (induction ps arbitrary: as)
  case Nil
  then show ?case by simp
next
  case (Cons p ps)
  let ?as1 = "reconcileList numStr now stk as p"
  have f: "filter (\<lambda>a. a_productId a = pid) ?as1 = filter (\<lambda>a. a_productId a = pid) as"
    using Cons.prems by (rule reconcileList_resolved_product)
  have "set (filter (\<lambda>a. a_productId a = pid) ?as1) = set (filter (\<lambda>a. a_productId a = pid) as)"
    using f by simp
  then have s: "{a \<in> set ?as1. a_productId a = pid} = {a \<in> set as. a_productId a = pid}"
    by simp
  have 1: "\<forall>a\<in>set ?as1. a_productId a = pid \<longrightarrow> a_workflowStatus a = ''RESOLVED''"
    using s Cons.prems(1) by blast
  have 2: "list_ex (\<lambda>a. a_productId a = pid) ?as1"
    using s Cons.prems(2) unfolding list_ex_iff by blast
  from Cons.IH [OF 1 2] f show ?case by simp
qed

text \<open>
  The claim C5 reads: a pass never changes a RESOLVED alert, and for a product whose only
  alert is RESOLVED and whose category is critical or low the pass creates a new alert with
  status NEW. In the small catalog the product is critical (40 of 100) and its only alert
  is RESOLVED; the pass returns the collection as it was, with no NEW alert.
\<close>

theorem resolved_alert_not_reopened_counterexample:
  "products exampleDb = [exampleProduct] \<and>
   categorizeStock (getTotalStockForProduct (stock exampleDb) (p_id exampleProduct)) (Fin (p_reorderPoint exampleProduct)) = Critical \<and>
   filter (\<lambda>a. a_productId a = p_id exampleProduct) [exampleAlert ''A-1'' 1 ''RESOLVED''] = [exampleAlert ''A-1'' 1 ''RESOLVED''] \<and>
   generateAlerts exampleNumStr ''2023-11-16T08:00:00.000Z'' (products exampleDb) (stock exampleDb)
       [exampleAlert ''A-1'' 1 ''RESOLVED''] = [exampleAlert ''A-1'' 1 ''RESOLVED''] \<and>
   \<not> list_ex (\<lambda>a. a_productId a = p_id exampleProduct \<and> a_workflowStatus a = ''NEW'')
       (generateAlerts exampleNumStr ''2023-11-16T08:00:00.000Z'' (products exampleDb) (stock exampleDb)
          [exampleAlert ''A-1'' 1 ''RESOLVED''])"
  by (simp add: store_example_defs)

text \<open>
  Claim C5, as amended. A pass never changes a RESOLVED alert: the alerts given to
  \<open>generateAlerts\<close> are the last ones of its result, position by position, and those
  that were RESOLVED are there unchanged. For a product all of whose alerts are RESOLVED
  (there being at least one), whatever its category, the pass creates nothing: the alerts
  of the product in the result are the given ones.
\<close>

theorem resolved_alerts_stay:
  "length existingAlerts \<le> length (generateAlerts numStr now ps stk existingAlerts) \<and>
   (\<forall>i<length existingAlerts. a_workflowStatus (existingAlerts ! i) = ''RESOLVED'' \<longrightarrow>
      drop (length (generateAlerts numStr now ps stk existingAlerts) - length existingAlerts)
        (generateAlerts numStr now ps stk existingAlerts) ! i = existingAlerts ! i) \<and>
   ((\<exists>a\<in>set existingAlerts. a_productId a = pid) \<and>
    (\<forall>a\<in>set existingAlerts. a_productId a = pid \<longrightarrow> a_workflowStatus a = ''RESOLVED'') \<longrightarrow>
      filter (\<lambda>a. a_productId a = pid) (generateAlerts numStr now ps stk existingAlerts) =
      filter (\<lambda>a. a_productId a = pid) existingAlerts)"
  using generateAlerts_length [of existingAlerts numStr now ps stk]
    generateAlerts_keeps_resolved [of _ existingAlerts numStr now ps stk]
    foldl_reconcileList_resolved_product [of existingAlerts pid numStr now stk ps]
  by (simp add: generateAlerts_foldl list_ex_iff)

theorem resolved_alerts_stay_witness:
  "a_workflowStatus ([exampleAlert ''A-1'' 1 ''RESOLVED'', exampleAlert ''A-2'' 2 ''NEW''] ! 0) = ''RESOLVED'' \<and>
   list_ex (\<lambda>a. a_productId a = 1) [exampleAlert ''A-1'' 1 ''RESOLVED'', exampleAlert ''A-2'' 2 ''NEW''] \<and>
   list_all (\<lambda>a. a_productId a \<noteq> 1 \<or> a_workflowStatus a = ''RESOLVED'')
     [exampleAlert ''A-1'' 1 ''RESOLVED'', exampleAlert ''A-2'' 2 ''NEW''] \<and>
   drop (length (generateAlerts exampleNumStr ''2023-11-16T08:00:00.000Z'' (products exampleDb) (stock exampleDb)
                   [exampleAlert ''A-1'' 1 ''RESOLVED'', exampleAlert ''A-2'' 2 ''NEW''])
           - length [exampleAlert ''A-1'' 1 ''RESOLVED'', exampleAlert ''A-2'' 2 ''NEW''])
        (generateAlerts exampleNumStr ''2023-11-16T08:00:00.000Z'' (products exampleDb) (stock exampleDb)
           [exampleAlert ''A-1'' 1 ''RESOLVED'', exampleAlert ''A-2'' 2 ''NEW'']) ! 0
     = exampleAlert ''A-1'' 1 ''RESOLVED'' \<and>
   filter (\<lambda>a. a_productId a = 1)
        (generateAlerts exampleNumStr ''2023-11-16T08:00:00.000Z'' (products exampleDb) (stock exampleDb)
           [exampleAlert ''A-1'' 1 ''RESOLVED'', exampleAlert ''A-2'' 2 ''NEW''])
     = [exampleAlert ''A-1'' 1 ''RESOLVED'']"
proof -
  let ?ex = "[exampleAlert ''A-1'' 1 ''RESOLVED'', exampleAlert ''A-2'' 2 ''NEW'']"
  let ?out = "generateAlerts exampleNumStr ''2023-11-16T08:00:00.000Z'' (products exampleDb) (stock exampleDb) ?ex"
  have h1: "(0::nat) < length ?ex" by simp
  have h2: "a_workflowStatus (?ex ! 0) = ''RESOLVED''" by (simp add: exampleAlert_def)
  have h3: "\<exists>a\<in>set ?ex. a_productId a = 1" by (simp add: exampleAlert_def)
  have h4: "\<forall>a\<in>set ?ex. a_productId a = 1 \<longrightarrow> a_workflowStatus a = ''RESOLVED''"
    by (simp add: exampleAlert_def)
  have f: "filter (\<lambda>a. a_productId a = 1) ?ex = [exampleAlert ''A-1'' 1 ''RESOLVED'']"
    by (simp add: exampleAlert_def)
  have e0: "?ex ! 0 = exampleAlert ''A-1'' 1 ''RESOLVED''" by simp
  from resolved_alerts_stay [of ?ex exampleNumStr "''2023-11-16T08:00:00.000Z''" "products exampleDb" "stock exampleDb" 1]
  have d: "drop (length ?out - length ?ex) ?out ! 0 = ?ex ! 0"
    and g: "filter (\<lambda>a. a_productId a = 1) ?out = filter (\<lambda>a. a_productId a = 1) ?ex"
    using h1 h2 h3 h4 by blast+
  have c3: "list_ex (\<lambda>a. a_productId a = 1) ?ex" using h3 by (simp add: list_ex_iff)
  have c4: "list_all (\<lambda>a. a_productId a \<noteq> 1 \<or> a_workflowStatus a = ''RESOLVED'') ?ex"
    using h4 by (simp add: list_all_iff)
  show ?thesis
    using h2 c3 c4 d [unfolded e0] g [unfolded f] by (intro conjI)
qed

subsection \<open>A second pass\<close>

text \<open>
  The claim C6 reads: a second call of \<open>generateAlerts\<close>, with nothing changed in
  between, leaves the alerts byte for byte as the first call left them, \<open>updatedAt\<close>
  included. In the small catalog the first call creates the alert of the critical product;
  the second call, a day later, finds it unresolved and refreshes it, which writes the new
  time into \<open>updatedAt\<close>.
\<close>

theorem second_pass_rewrites_updatedAt_counterexample:
  "generateAlerts exampleNumStr ''2023-11-15T08:00:00.000Z'' (products exampleDb) (stock exampleDb) [] =
     [(exampleAlert ''A-2023-11-15T08:00:00.000Z-1'' 1 ''NEW'')
        \<lparr>a_createdAt := ''2023-11-15T08:00:00.000Z'', a_updatedAt := ''2023-11-15T08:00:00.000Z'',
         a_comment := None\<rparr>] \<and>
   generateAlerts exampleNumStr ''2023-11-16T08:00:00.000Z'' (products exampleDb) (stock exampleDb)
       (generateAlerts exampleNumStr ''2023-11-15T08:00:00.000Z'' (products exampleDb) (stock exampleDb) []) =
     [(exampleAlert ''A-2023-11-15T08:00:00.000Z-1'' 1 ''NEW'')
        \<lparr>a_createdAt := ''2023-11-15T08:00:00.000Z'', a_updatedAt := ''2023-11-16T08:00:00.000Z'',
         a_comment := None\<rparr>] \<and>
   generateAlerts exampleNumStr ''2023-11-16T08:00:00.000Z'' (products exampleDb) (stock exampleDb)
       (generateAlerts exampleNumStr ''2023-11-15T08:00:00.000Z'' (products exampleDb) (stock exampleDb) []) \<noteq>
     generateAlerts exampleNumStr ''2023-11-15T08:00:00.000Z'' (products exampleDb) (stock exampleDb) []"
  by (simp add: store_example_defs)

lemma updLast_list_ex:
  "\<forall>x. Q (f x) = Q x \<Longrightarrow> list_ex Q (updLast P f xs) = list_ex Q xs"
  by (induction xs) auto

lemma updLast_none: "\<not> list_ex P xs \<Longrightarrow> updLast P f xs = xs"
  by (induction xs) auto

lemma updLast_twice:
  assumes "\<forall>x. P (f x) = P x"
  shows "updLast P g (updLast P f xs) = updLast P (\<lambda>x. g (f x)) xs"
proof (induction xs)
  case Nil
  then show ?case by simp
next
  case (Cons x xs)
  have ex: "list_ex P (updLast P f xs) = list_ex P xs"
    using assms by (rule updLast_list_ex)
  show ?case using Cons ex assms by simp
qed

lemma updLast_cong: "\<forall>x. P x \<longrightarrow> f x = g x \<Longrightarrow> updLast P f xs = updLast P g xs"
  by (induction xs) auto

lemma updLast_commute:
  assumes "\<forall>x. \<not> (P x \<and> Q x)" and "\<forall>x. P (g x) = P x" and "\<forall>x. Q (f x) = Q x"
  shows "updLast P f (updLast Q g xs) = updLast Q g (updLast P f xs)"
proof (induction xs)
  case Nil
  then show ?case by simp
next
  case (Cons x xs)
  have e1: "list_ex P (updLast Q g xs) = list_ex P xs" using assms(2) by (rule updLast_list_ex)
  have e2: "list_ex Q (updLast P f xs) = list_ex Q xs" using assms(3) by (rule updLast_list_ex)
  show ?case using Cons e1 e2 assms by auto
qed

lemma updLast_nth_last:
  "i < length xs \<Longrightarrow>
     updLast P f xs ! i = (if P (xs ! i) \<and> \<not> list_ex P (drop (Suc i) xs) then f (xs ! i) else xs ! i)"
proof (induction xs arbitrary: i)
  case Nil
  then show ?case by simp
next
  case (Cons x xs)
  show ?case
  proof (cases i)
    case 0
    then show ?thesis by simp
  next
    case (Suc k)
    then have k: "k < length xs" using Cons.prems by simp
    show ?thesis
    proof (cases "list_ex P xs")
      case True
      then show ?thesis using Suc Cons.IH [OF k] by simp
    next
      case False
      then have "\<not> P (xs ! k)" using k by (auto simp: list_ex_iff)
      then show ?thesis using Suc False by simp
    qed
  qed
qed

lemma restamp_productId [simp]: "a_productId (restamp now stk p a) = a_productId a"
  by (simp add: restamp_def)

lemma restamp_workflowStatus [simp]: "a_workflowStatus (restamp now stk p a) = a_workflowStatus a"
  by (simp add: restamp_def)

lemma reconcileExisting_settles:
  "reconcileExisting now2 stk p (reconcileExisting now1 stk p a) =
     restamp now2 stk p (reconcileExisting now1 stk p a)"
proof (cases "a_workflowStatus a = ''RESOLVED''")
  case True
  then show ?thesis by (simp add: restamp_def)
next
  case False
  show ?thesis
  proof (cases "breached stk p")
    case True
    then show ?thesis using False
      by (simp add: reconcileExisting_def restamp_def breached_def Let_def case_prod_beta refreshAlert_def)
  next
    case b: False
    then show ?thesis using False
      by (simp add: reconcileExisting_def restamp_def breached_def Let_def case_prod_beta resolveAlert_def)
  qed
qed

lemma reconcileExisting_created:
  "breached stk p \<Longrightarrow>
     reconcileExisting now2 stk p (createdAlert numStr now1 stk p) =
       restamp now2 stk p (createdAlert numStr now1 stk p)"
  by (simp add: reconcileExisting_def restamp_def createdAlert_def breached_def Let_def case_prod_beta
      refreshAlert_def newAlert_def)

lemma reconcileList_list_ex_other:
  "p_id p \<noteq> pid \<Longrightarrow>
     list_ex (\<lambda>a. a_productId a = pid) (reconcileList numStr now stk as p) =
     list_ex (\<lambda>a. a_productId a = pid) as"
  by (simp add: reconcileList_def updLast_list_ex)

text \<open>
  A collection is settled for a product \<open>p\<close> when a pass at time \<open>now2\<close> creates no alert
  for \<open>p\<close> and does to the alerts of \<open>p\<close> what \<open>restamp\<close> does.
\<close>

lemma settled_reconcileList:
  assumes "list_ex (\<lambda>a. a_productId a = p_id p) cur \<or> \<not> breached stk p"
    and "updLast (\<lambda>a. a_productId a = p_id p) (reconcileExisting now2 stk p) cur =
         updLast (\<lambda>a. a_productId a = p_id p) (restamp now2 stk p) cur"
  shows "reconcileList n2 now2 stk cur p = updLast (\<lambda>a. a_productId a = p_id p) (restamp now2 stk p) cur"
  using assms by (auto simp: reconcileList_def updLast_none)

lemma settled_after_own_step:
  "(list_ex (\<lambda>a. a_productId a = p_id p) (reconcileList n1 now1 stk cur p) \<or> \<not> breached stk p) \<and>
   updLast (\<lambda>a. a_productId a = p_id p) (reconcileExisting now2 stk p) (reconcileList n1 now1 stk cur p) =
   updLast (\<lambda>a. a_productId a = p_id p) (restamp now2 stk p) (reconcileList n1 now1 stk cur p)"
proof (cases "list_ex (\<lambda>a. a_productId a = p_id p) cur")
  case True
  let ?P = "\<lambda>a. a_productId a = p_id p"
  have r: "reconcileList n1 now1 stk cur p = updLast ?P (reconcileExisting now1 stk p) cur"
    using True by (simp add: reconcileList_def)
  have ex: "list_ex ?P (updLast ?P (reconcileExisting now1 stk p) cur)"
    using True by (simp add: updLast_list_ex)
  have "updLast ?P (reconcileExisting now2 stk p) (updLast ?P (reconcileExisting now1 stk p) cur) =
      updLast ?P (\<lambda>x. reconcileExisting now2 stk p (reconcileExisting now1 stk p x)) cur"
    by (rule updLast_twice) simp
  moreover have "updLast ?P (restamp now2 stk p) (updLast ?P (reconcileExisting now1 stk p) cur) =
      updLast ?P (\<lambda>x. restamp now2 stk p (reconcileExisting now1 stk p x)) cur"
    by (rule updLast_twice) simp
  ultimately show ?thesis unfolding r using ex by (simp add: reconcileExisting_settles)
next
  case False
  then show ?thesis
    by (cases "breached stk p") (simp_all add: reconcileList_def reconcileExisting_created updLast_none)
qed

lemma updLast_reconcileList_other:
  assumes "p_id p \<noteq> p_id q" and "\<forall>x. a_productId (f x) = a_productId x"
  shows "updLast (\<lambda>a. a_productId a = p_id p) f (reconcileList n1 now1 stk cur q) =
     reconcileList n1 now1 stk (updLast (\<lambda>a. a_productId a = p_id p) f cur) q"
proof -
  let ?P = "\<lambda>a. a_productId a = p_id p" and ?Q = "\<lambda>a. a_productId a = p_id q"
  have eq: "list_ex ?Q (updLast ?P f cur) = list_ex ?Q cur"
    using assms(2) by (intro updLast_list_ex) simp
  show ?thesis
  proof (cases "list_ex ?Q cur")
    case True
    have "updLast ?P f (updLast ?Q (reconcileExisting now1 stk q) cur) =
        updLast ?Q (reconcileExisting now1 stk q) (updLast ?P f cur)"
      using assms by (intro updLast_commute) auto
    then show ?thesis using True eq by (simp add: reconcileList_def)
  next
    case False
    then show ?thesis using eq assms(1)
      by (cases "breached stk q") (simp_all add: reconcileList_def updLast_none)
  qed
qed

lemma settled_after_other_step:
  assumes "list_ex (\<lambda>a. a_productId a = p_id p) cur \<or> \<not> breached stk p"
    and "updLast (\<lambda>a. a_productId a = p_id p) (reconcileExisting now2 stk p) cur =
         updLast (\<lambda>a. a_productId a = p_id p) (restamp now2 stk p) cur"
    and "p_id q \<noteq> p_id p"
  shows "(list_ex (\<lambda>a. a_productId a = p_id p) (reconcileList n1 now1 stk cur q) \<or> \<not> breached stk p) \<and>
   updLast (\<lambda>a. a_productId a = p_id p) (reconcileExisting now2 stk p) (reconcileList n1 now1 stk cur q) =
   updLast (\<lambda>a. a_productId a = p_id p) (restamp now2 stk p) (reconcileList n1 now1 stk cur q)"
proof -
  have ne: "p_id p \<noteq> p_id q" using assms(3) by simp
  have "list_ex (\<lambda>a. a_productId a = p_id p) (reconcileList n1 now1 stk cur q) =
      list_ex (\<lambda>a. a_productId a = p_id p) cur"
    using assms(3) by (rule reconcileList_list_ex_other)
  moreover have "updLast (\<lambda>a. a_productId a = p_id p) (reconcileExisting now2 stk p) (reconcileList n1 now1 stk cur q) =
      reconcileList n1 now1 stk (updLast (\<lambda>a. a_productId a = p_id p) (reconcileExisting now2 stk p) cur) q"
    using ne by (rule updLast_reconcileList_other) simp
  moreover have "updLast (\<lambda>a. a_productId a = p_id p) (restamp now2 stk p) (reconcileList n1 now1 stk cur q) =
      reconcileList n1 now1 stk (updLast (\<lambda>a. a_productId a = p_id p) (restamp now2 stk p) cur) q"
    using ne by (rule updLast_reconcileList_other) simp
  ultimately show ?thesis using assms(1,2) by simp
qed

lemma settled_after_other_steps:
  "list_ex (\<lambda>a. a_productId a = p_id p) cur \<or> \<not> breached stk p \<Longrightarrow>
   updLast (\<lambda>a. a_productId a = p_id p) (reconcileExisting now2 stk p) cur =
     updLast (\<lambda>a. a_productId a = p_id p) (restamp now2 stk p) cur \<Longrightarrow>
   \<forall>q\<in>set qs. p_id q \<noteq> p_id p \<Longrightarrow>
   (list_ex (\<lambda>a. a_productId a = p_id p) (foldl (reconcileList n1 now1 stk) cur qs) \<or> \<not> breached stk p) \<and>
   updLast (\<lambda>a. a_productId a = p_id p) (reconcileExisting now2 stk p) (foldl (reconcileList n1 now1 stk) cur qs) =
   updLast (\<lambda>a. a_productId a = p_id p) (restamp now2 stk p) (foldl (reconcileList n1 now1 stk) cur qs)"
proof (induction qs arbitrary: cur)
  case Nil
  then show ?case by simp
next
  case (Cons q qs)
  from Cons.prems have ne: "p_id q \<noteq> p_id p" and rest: "\<forall>q\<in>set qs. p_id q \<noteq> p_id p" by simp_all
  from settled_after_other_step [OF Cons.prems(1,2) ne, of n1 now1]
  have 1: "list_ex (\<lambda>a. a_productId a = p_id p) (reconcileList n1 now1 stk cur q) \<or> \<not> breached stk p"
    and 2: "updLast (\<lambda>a. a_productId a = p_id p) (reconcileExisting now2 stk p) (reconcileList n1 now1 stk cur q) =
      updLast (\<lambda>a. a_productId a = p_id p) (restamp now2 stk p) (reconcileList n1 now1 stk cur q)"
    by simp_all
  from Cons.IH [OF 1 2 rest] show ?case by simp
qed

lemma all_settled_after_pass:
  "distinct (map p_id ps) \<Longrightarrow>
     \<forall>p\<in>set ps.
       (list_ex (\<lambda>a. a_productId a = p_id p) (foldl (reconcileList n1 now1 stk) cur ps) \<or> \<not> breached stk p) \<and>
       updLast (\<lambda>a. a_productId a = p_id p) (reconcileExisting now2 stk p) (foldl (reconcileList n1 now1 stk) cur ps) =
       updLast (\<lambda>a. a_productId a = p_id p) (restamp now2 stk p) (foldl (reconcileList n1 now1 stk) cur ps)"
proof (induction ps arbitrary: cur)
  case Nil
  then show ?case by simp
next
  case (Cons q qs)
  let ?cur1 = "reconcileList n1 now1 stk cur q"
  have others: "\<forall>q'\<in>set qs. p_id q' \<noteq> p_id q" using Cons.prems by (auto simp: image_iff)
  from settled_after_own_step [of q n1 now1 stk cur now2]
  have 1: "list_ex (\<lambda>a. a_productId a = p_id q) ?cur1 \<or> \<not> breached stk q"
    and 2: "updLast (\<lambda>a. a_productId a = p_id q) (reconcileExisting now2 stk q) ?cur1 =
      updLast (\<lambda>a. a_productId a = p_id q) (restamp now2 stk q) ?cur1"
    by simp_all
  have first: "(list_ex (\<lambda>a. a_productId a = p_id q) (foldl (reconcileList n1 now1 stk) ?cur1 qs) \<or> \<not> breached stk q) \<and>
     updLast (\<lambda>a. a_productId a = p_id q) (reconcileExisting now2 stk q) (foldl (reconcileList n1 now1 stk) ?cur1 qs) =
     updLast (\<lambda>a. a_productId a = p_id q) (restamp now2 stk q) (foldl (reconcileList n1 now1 stk) ?cur1 qs)"
    using 1 2 others by (rule settled_after_other_steps)
  have rest: "\<forall>p\<in>set qs.
       (list_ex (\<lambda>a. a_productId a = p_id p) (foldl (reconcileList n1 now1 stk) ?cur1 qs) \<or> \<not> breached stk p) \<and>
       updLast (\<lambda>a. a_productId a = p_id p) (reconcileExisting now2 stk p) (foldl (reconcileList n1 now1 stk) ?cur1 qs) =
       updLast (\<lambda>a. a_productId a = p_id p) (restamp now2 stk p) (foldl (reconcileList n1 now1 stk) ?cur1 qs)"
    using Cons.IH [of ?cur1] Cons.prems by simp
  show ?case using first rest by simp
qed

lemma settled_after_restamp:
  assumes "list_ex (\<lambda>a. a_productId a = p_id p) cur \<or> \<not> breached stk p"
    and "updLast (\<lambda>a. a_productId a = p_id p) (reconcileExisting now2 stk p) cur =
         updLast (\<lambda>a. a_productId a = p_id p) (restamp now2 stk p) cur"
    and "p_id q \<noteq> p_id p"
  shows "(list_ex (\<lambda>a. a_productId a = p_id p) (updLast (\<lambda>a. a_productId a = p_id q) (restamp now2 stk q) cur)
            \<or> \<not> breached stk p) \<and>
   updLast (\<lambda>a. a_productId a = p_id p) (reconcileExisting now2 stk p)
       (updLast (\<lambda>a. a_productId a = p_id q) (restamp now2 stk q) cur) =
   updLast (\<lambda>a. a_productId a = p_id p) (restamp now2 stk p)
       (updLast (\<lambda>a. a_productId a = p_id q) (restamp now2 stk q) cur)"
proof -
  let ?P = "\<lambda>a. a_productId a = p_id p" and ?Q = "\<lambda>a. a_productId a = p_id q"
  have "list_ex ?P (updLast ?Q (restamp now2 stk q) cur) = list_ex ?P cur"
    by (rule updLast_list_ex) simp
  moreover have "updLast ?P (reconcileExisting now2 stk p) (updLast ?Q (restamp now2 stk q) cur) =
      updLast ?Q (restamp now2 stk q) (updLast ?P (reconcileExisting now2 stk p) cur)"
    using assms(3) by (intro updLast_commute) auto
  moreover have "updLast ?P (restamp now2 stk p) (updLast ?Q (restamp now2 stk q) cur) =
      updLast ?Q (restamp now2 stk q) (updLast ?P (restamp now2 stk p) cur)"
    using assms(3) by (intro updLast_commute) auto
  ultimately show ?thesis using assms(1,2) by simp
qed

lemma pass_over_settled:
  "distinct (map p_id qs) \<Longrightarrow>
   \<forall>p\<in>set qs.
     (list_ex (\<lambda>a. a_productId a = p_id p) cur \<or> \<not> breached stk p) \<and>
     updLast (\<lambda>a. a_productId a = p_id p) (reconcileExisting now2 stk p) cur =
     updLast (\<lambda>a. a_productId a = p_id p) (restamp now2 stk p) cur \<Longrightarrow>
   foldl (reconcileList n2 now2 stk) cur qs =
     foldl (\<lambda>c p. updLast (\<lambda>a. a_productId a = p_id p) (restamp now2 stk p) c) cur qs"
proof (induction qs arbitrary: cur)
  case Nil
  then show ?case by simp
next
  case (Cons q qs)
  let ?cur1 = "updLast (\<lambda>a. a_productId a = p_id q) (restamp now2 stk q) cur"
  have step: "reconcileList n2 now2 stk cur q = ?cur1"
    using Cons.prems(2) by (intro settled_reconcileList) simp_all
  have d: "distinct (map p_id qs)" using Cons.prems(1) by simp
  have rest: "\<forall>p\<in>set qs.
     (list_ex (\<lambda>a. a_productId a = p_id p) ?cur1 \<or> \<not> breached stk p) \<and>
     updLast (\<lambda>a. a_productId a = p_id p) (reconcileExisting now2 stk p) ?cur1 =
     updLast (\<lambda>a. a_productId a = p_id p) (restamp now2 stk p) ?cur1"
  proof
    fix p assume p: "p \<in> set qs"
    then have ne: "p_id q \<noteq> p_id p" using Cons.prems(1) by (auto simp: image_iff)
    have a: "list_ex (\<lambda>a. a_productId a = p_id p) cur \<or> \<not> breached stk p"
      and b: "updLast (\<lambda>a. a_productId a = p_id p) (reconcileExisting now2 stk p) cur =
         updLast (\<lambda>a. a_productId a = p_id p) (restamp now2 stk p) cur"
      using Cons.prems(2) p by simp_all
    from a b ne show "(list_ex (\<lambda>a. a_productId a = p_id p) ?cur1 \<or> \<not> breached stk p) \<and>
     updLast (\<lambda>a. a_productId a = p_id p) (reconcileExisting now2 stk p) ?cur1 =
     updLast (\<lambda>a. a_productId a = p_id p) (restamp now2 stk p) ?cur1"
      by (rule settled_after_restamp)
  qed
  from Cons.IH [OF d rest] step show ?case by simp
qed

lemma second_pass_restamps:
  assumes "distinct (map p_id ps)"
  shows "generateAlerts n2 now2 ps stk (generateAlerts n1 now1 ps stk as) =
     foldl (\<lambda>c p. updLast (\<lambda>a. a_productId a = p_id p) (restamp now2 stk p) c)
       (generateAlerts n1 now1 ps stk as) ps"
  unfolding generateAlerts_foldl
  using assms all_settled_after_pass [OF assms, of n1 now1 stk as now2]
  by (rule pass_over_settled)

lemma lastOfProduct_cong:
  assumes "map a_productId as = map a_productId bs" and "i < length as"
  shows "lastOfProduct as i = lastOfProduct bs i"
proof -
  have len: "length as = length bs" using assms(1) by (rule map_eq_imp_length_eq)
  have i: "a_productId (as ! i) = a_productId (bs ! i)"
    using assms len by (metis nth_map)
  have "list_ex (\<lambda>a. a_productId a = k) (drop (Suc i) as) \<longleftrightarrow> k \<in> set (drop (Suc i) (map a_productId as))" for k
    by (auto simp: list_ex_iff drop_map)
  moreover have "list_ex (\<lambda>a. a_productId a = k) (drop (Suc i) bs) \<longleftrightarrow> k \<in> set (drop (Suc i) (map a_productId bs))" for k
    by (auto simp: list_ex_iff drop_map)
  ultimately show ?thesis using assms(1) i by (simp add: lastOfProduct_def)
qed

lemma refreshedAlert_cong:
  assumes "map a_productId as = map a_productId bs" and "i < length as"
    and "a_workflowStatus (as ! i) = a_workflowStatus (bs ! i)"
  shows "refreshedAlert ps stk as i = refreshedAlert ps stk bs i"
proof -
  have len: "length as = length bs" using assms(1) by (rule map_eq_imp_length_eq)
  have i: "a_productId (as ! i) = a_productId (bs ! i)"
    using assms(1,2) len by (metis nth_map)
  show ?thesis using lastOfProduct_cong [OF assms(1,2)] i assms(3) by (simp add: refreshedAlert_def)
qed

lemma restamp_nth:
  assumes "i < length cur"
  shows "updLast (\<lambda>a. a_productId a = p_id q) (restamp now stk q) cur ! i =
     (if a_workflowStatus (cur ! i) \<noteq> ''RESOLVED'' \<and> lastOfProduct cur i \<and>
         p_id q = a_productId (cur ! i) \<and> breached stk q
      then (cur ! i)\<lparr>a_updatedAt := now\<rparr> else cur ! i)"
proof -
  have "list_ex (\<lambda>a. a_productId a = p_id q) (drop (Suc i) cur) =
      list_ex (\<lambda>a. a_productId a = a_productId (cur ! i)) (drop (Suc i) cur)"
    if "a_productId (cur ! i) = p_id q"
    using that by simp
  then show ?thesis
    unfolding updLast_nth_last [OF assms]
    by (auto simp: restamp_def lastOfProduct_def)
qed

lemma restamps_length:
  "length (foldl (\<lambda>c p. updLast (\<lambda>a. a_productId a = p_id p) (restamp now stk p) c) cur qs) = length cur"
  by (induction qs arbitrary: cur) simp_all

lemma restamps_nth:
  "i < length cur \<Longrightarrow>
     length (foldl (\<lambda>c p. updLast (\<lambda>a. a_productId a = p_id p) (restamp now stk p) c) cur qs) = length cur \<and>
     foldl (\<lambda>c p. updLast (\<lambda>a. a_productId a = p_id p) (restamp now stk p) c) cur qs ! i =
       (if refreshedAlert qs stk cur i then (cur ! i)\<lparr>a_updatedAt := now\<rparr> else cur ! i)"
proof (induction qs arbitrary: cur)
  case Nil
  then show ?case by (simp add: refreshedAlert_def)
next
  case (Cons q qs)
  let ?cur1 = "updLast (\<lambda>a. a_productId a = p_id q) (restamp now stk q) cur"
  have len: "length ?cur1 = length cur" by simp
  have ids: "map a_productId ?cur1 = map a_productId cur"
    by (rule updLast_map) simp
  have i1: "i < length ?cur1" using Cons.prems by simp
  have n: "?cur1 ! i =
     (if a_workflowStatus (cur ! i) \<noteq> ''RESOLVED'' \<and> lastOfProduct cur i \<and>
         p_id q = a_productId (cur ! i) \<and> breached stk q
      then (cur ! i)\<lparr>a_updatedAt := now\<rparr> else cur ! i)"
    using Cons.prems by (rule restamp_nth)
  then have st: "a_workflowStatus (?cur1 ! i) = a_workflowStatus (cur ! i)" by simp
  have r: "refreshedAlert qs stk ?cur1 i = refreshedAlert qs stk cur i"
    using ids i1 st by (rule refreshedAlert_cong)
  have split: "refreshedAlert (q # qs) stk cur i \<longleftrightarrow>
      (a_workflowStatus (cur ! i) \<noteq> ''RESOLVED'' \<and> lastOfProduct cur i \<and>
         p_id q = a_productId (cur ! i) \<and> breached stk q) \<or> refreshedAlert qs stk cur i"
    by (auto simp: refreshedAlert_def)
  from Cons.IH [OF i1] have
    l: "length (foldl (\<lambda>c p. updLast (\<lambda>a. a_productId a = p_id p) (restamp now stk p) c) ?cur1 qs) = length ?cur1"
    and v: "foldl (\<lambda>c p. updLast (\<lambda>a. a_productId a = p_id p) (restamp now stk p) c) ?cur1 qs ! i =
       (if refreshedAlert qs stk ?cur1 i then (?cur1 ! i)\<lparr>a_updatedAt := now\<rparr> else ?cur1 ! i)"
    by simp_all
  show ?case using l len v r n split by (auto simp del: updLast.simps)
qed

text \<open>
  Claim C6, as amended. When the products of the catalog have pairwise distinct ids, a
  second call of \<open>generateAlerts\<close> with the same catalog and ledger creates no alert, and
  it returns each alert of the first call at its position: with the time of the second call
  as \<open>updatedAt\<close> and no other change when the alert is unresolved, is the last alert of
  its product id in the collection, and a product of the catalog with that id is critical
  or low; and exactly as it was, \<open>updatedAt\<close> included, in every other case.
\<close>

theorem second_pass_changes_only_updatedAt:
  assumes "distinct (map p_id ps)"
  shows "length (generateAlerts numStr now2 ps stk (generateAlerts numStr now1 ps stk existingAlerts)) =
       length (generateAlerts numStr now1 ps stk existingAlerts) \<and>
     (\<forall>i<length (generateAlerts numStr now1 ps stk existingAlerts).
        generateAlerts numStr now2 ps stk (generateAlerts numStr now1 ps stk existingAlerts) ! i =
          (if refreshedAlert ps stk (generateAlerts numStr now1 ps stk existingAlerts) i
           then (generateAlerts numStr now1 ps stk existingAlerts ! i)\<lparr>a_updatedAt := now2\<rparr>
           else generateAlerts numStr now1 ps stk existingAlerts ! i))"
proof -
  let ?out1 = "generateAlerts numStr now1 ps stk existingAlerts"
  let ?out2 = "generateAlerts numStr now2 ps stk ?out1"
  let ?re = "foldl (\<lambda>c p. updLast (\<lambda>a. a_productId a = p_id p) (restamp now2 stk p) c) ?out1 ps"
  have eq: "?out2 = ?re" using assms by (rule second_pass_restamps)
  have len: "length ?re = length ?out1" by (rule restamps_length)
  have nth: "\<forall>i<length ?out1. ?re ! i =
      (if refreshedAlert ps stk ?out1 i then (?out1 ! i)\<lparr>a_updatedAt := now2\<rparr> else ?out1 ! i)"
    using restamps_nth [of _ ?out1 now2 stk ps] by simp
  show ?thesis unfolding eq using len nth by simp
qed

lemma example_two_products_first_pass:
  "generateAlerts exampleNumStr ''2023-11-15T08:00:00.000Z'' [exampleProduct, exampleProduct2] exampleStock2
       exampleAlerts2 =
     [(exampleAlert ''A-2023-11-15T08:00:00.000Z-1'' 1 ''NEW'')
        \<lparr>a_createdAt := ''2023-11-15T08:00:00.000Z'', a_updatedAt := ''2023-11-15T08:00:00.000Z'',
         a_comment := None\<rparr>,
      (exampleAlert ''A-2'' 2 ''RESOLVED'')\<lparr>a_updatedAt := ''2023-11-15T08:00:00.000Z''\<rparr>,
      exampleAlert ''A-7'' 7 ''ACKNOWLEDGED'']"
  by (simp add: alert_example_defs exampleStock2_def exampleProduct2_def exampleAlerts2_def)

lemma example_two_products_breached:
  "breached exampleStock2 exampleProduct" "\<not> breached exampleStock2 exampleProduct2"
  by (simp_all add: alert_example_defs exampleStock2_def exampleProduct2_def)

theorem second_pass_changes_only_updatedAt_witness:
  "distinct (map p_id [exampleProduct, exampleProduct2]) \<and>
   map a_id (generateAlerts exampleNumStr ''2023-11-15T08:00:00.000Z'' [exampleProduct, exampleProduct2]
      exampleStock2 exampleAlerts2) = [''A-2023-11-15T08:00:00.000Z-1'', ''A-2'', ''A-7''] \<and>
   map a_workflowStatus (generateAlerts exampleNumStr ''2023-11-15T08:00:00.000Z'' [exampleProduct, exampleProduct2]
      exampleStock2 exampleAlerts2) = [''NEW'', ''RESOLVED'', ''ACKNOWLEDGED''] \<and>
   refreshedAlert [exampleProduct, exampleProduct2] exampleStock2
     (generateAlerts exampleNumStr ''2023-11-15T08:00:00.000Z'' [exampleProduct, exampleProduct2]
        exampleStock2 exampleAlerts2) 0 \<and>
   \<not> refreshedAlert [exampleProduct, exampleProduct2] exampleStock2
     (generateAlerts exampleNumStr ''2023-11-15T08:00:00.000Z'' [exampleProduct, exampleProduct2]
        exampleStock2 exampleAlerts2) 1 \<and>
   \<not> refreshedAlert [exampleProduct, exampleProduct2] exampleStock2
     (generateAlerts exampleNumStr ''2023-11-15T08:00:00.000Z'' [exampleProduct, exampleProduct2]
        exampleStock2 exampleAlerts2) 2 \<and>
   generateAlerts exampleNumStr ''2023-11-16T08:00:00.000Z'' [exampleProduct, exampleProduct2] exampleStock2
     (generateAlerts exampleNumStr ''2023-11-15T08:00:00.000Z'' [exampleProduct, exampleProduct2]
        exampleStock2 exampleAlerts2) =
     [(exampleAlert ''A-2023-11-15T08:00:00.000Z-1'' 1 ''NEW'')
        \<lparr>a_createdAt := ''2023-11-15T08:00:00.000Z'', a_updatedAt := ''2023-11-16T08:00:00.000Z'',
         a_comment := None\<rparr>,
      (exampleAlert ''A-2'' 2 ''RESOLVED'')\<lparr>a_updatedAt := ''2023-11-15T08:00:00.000Z''\<rparr>,
      exampleAlert ''A-7'' 7 ''ACKNOWLEDGED'']"
proof -
  let ?ps = "[exampleProduct, exampleProduct2]"
  let ?out1 = "generateAlerts exampleNumStr ''2023-11-15T08:00:00.000Z'' ?ps exampleStock2 exampleAlerts2"
  let ?out2 = "generateAlerts exampleNumStr ''2023-11-16T08:00:00.000Z'' ?ps exampleStock2 ?out1"
  have d: "distinct (map p_id ?ps)" by (simp add: exampleProduct_def exampleProduct2_def)
  have ids: "map a_id ?out1 = [''A-2023-11-15T08:00:00.000Z-1'', ''A-2'', ''A-7'']"
    unfolding example_two_products_first_pass by (simp add: exampleAlert_def)
  have sts: "map a_workflowStatus ?out1 = [''NEW'', ''RESOLVED'', ''ACKNOWLEDGED'']"
    unfolding example_two_products_first_pass by (simp add: exampleAlert_def)
  have pid: "p_id exampleProduct = 1" "p_id exampleProduct2 = 2"
    by (simp_all add: exampleProduct_def exampleProduct2_def)
  have r0: "refreshedAlert ?ps exampleStock2 ?out1 0"
    unfolding example_two_products_first_pass
    by (simp add: refreshedAlert_def lastOfProduct_def example_two_products_breached exampleAlert_def pid)
  have r1: "\<not> refreshedAlert ?ps exampleStock2 ?out1 1"
    unfolding example_two_products_first_pass
    by (simp add: refreshedAlert_def exampleAlert_def)
  have r2: "\<not> refreshedAlert ?ps exampleStock2 ?out1 2"
    unfolding example_two_products_first_pass
    by (simp add: refreshedAlert_def lastOfProduct_def exampleAlert_def pid)
  from second_pass_changes_only_updatedAt [OF d, of exampleNumStr "''2023-11-16T08:00:00.000Z''"
      exampleStock2 "''2023-11-15T08:00:00.000Z''" exampleAlerts2]
  have len: "length ?out2 = length ?out1"
    and nth: "\<And>i. i < length ?out1 \<Longrightarrow> ?out2 ! i =
          (if refreshedAlert ?ps exampleStock2 ?out1 i then (?out1 ! i)\<lparr>a_updatedAt := ''2023-11-16T08:00:00.000Z''\<rparr>
           else ?out1 ! i)"
    by simp_all
  have l1: "length ?out1 = 3" unfolding example_two_products_first_pass by simp
  have n0: "?out2 ! 0 = (?out1 ! 0)\<lparr>a_updatedAt := ''2023-11-16T08:00:00.000Z''\<rparr>"
    using nth [of 0] l1 r0 by simp
  have n1: "?out2 ! 1 = ?out1 ! 1" using nth [of 1] l1 r1 by simp
  have n2: "?out2 ! 2 = ?out1 ! 2" using nth [of 2] l1 r2 by simp
  have "?out2 = [?out2 ! 0, ?out2 ! 1, ?out2 ! 2]"
    using len l1 by (auto simp: length_Suc_conv numeral_3_eq_3)
  also have "\<dots> = [(?out1 ! 0)\<lparr>a_updatedAt := ''2023-11-16T08:00:00.000Z''\<rparr>, ?out1 ! 1, ?out1 ! 2]"
    using n0 n1 n2 by simp
  also have "\<dots> = [(exampleAlert ''A-2023-11-15T08:00:00.000Z-1'' 1 ''NEW'')
        \<lparr>a_createdAt := ''2023-11-15T08:00:00.000Z'', a_updatedAt := ''2023-11-16T08:00:00.000Z'',
         a_comment := None\<rparr>,
      (exampleAlert ''A-2'' 2 ''RESOLVED'')\<lparr>a_updatedAt := ''2023-11-15T08:00:00.000Z''\<rparr>,
      exampleAlert ''A-7'' 7 ''ACKNOWLEDGED'']"
    unfolding example_two_products_first_pass by simp
  finally have out2: "?out2 = [(exampleAlert ''A-2023-11-15T08:00:00.000Z-1'' 1 ''NEW'')
        \<lparr>a_createdAt := ''2023-11-15T08:00:00.000Z'', a_updatedAt := ''2023-11-16T08:00:00.000Z'',
         a_comment := None\<rparr>,
      (exampleAlert ''A-2'' 2 ''RESOLVED'')\<lparr>a_updatedAt := ''2023-11-15T08:00:00.000Z''\<rparr>,
      exampleAlert ''A-7'' 7 ''ACKNOWLEDGED'']" .
  show ?thesis by (intro conjI d ids sts r0 r1 r2 out2)
qed

end
